theory Spec2Isabelle
  imports Main "HOL-Library.AList"
begin

section \<open>Errors\<close>

text \<open>
  Every failure of the IR core is a Python exception: a failed \<open>assert\<close>, a missing
  key, an exhausted iterator, an index out of range, a value of the wrong type. The model
  returns them as values (\<open>Inl\<close>), with the assertion's message where the source
  gives one.
\<close>

datatype error =
    KeyError string
  | ValueKeyError
  | AssertionError string
  | TypeError string
  | IndexError
  | StopIteration
  | AttributeError string
  | DecodeError

section \<open>Scope\<close>

text \<open>
  \<open>class Scope(OrderedDict)\<close>: the local entries in insertion order, the inverse
  dictionary from value to name, and the optional parent scope. Assigning to an existing
  key of an ordered dictionary keeps the key's position, which is what
  \<^const>\<open>AList.update\<close> does.
\<close>

datatype 'v scope =
  Scope (items: "(string \<times> 'v) list") (inverse_dict: "('v \<times> string) list")
        (parent: "'v scope option")

definition empty_scope :: "'v scope option \<Rightarrow> 'v scope" where
  "empty_scope par = Scope [] [] par"

definition scope_values :: "'v scope \<Rightarrow> 'v list" where
  "scope_values s = map snd (items s)"

definition scope_setitem :: "string \<Rightarrow> 'v \<Rightarrow> 'v scope \<Rightarrow> 'v scope" where
  "scope_setitem key val s =
     Scope (AList.update key val (items s)) (AList.update val key (inverse_dict s)) (parent s)"

definition contains_no_parent :: "string \<Rightarrow> 'v scope \<Rightarrow> bool" where
  "contains_no_parent key s = (key \<in> set (map fst (items s)))"

fun scope_contains :: "string \<Rightarrow> 'v scope \<Rightarrow> bool" where
  "scope_contains key (Scope its ivd par) =
     (if key \<in> set (map fst its) then True
      else (case par of Some p \<Rightarrow> scope_contains key p | None \<Rightarrow> False))"

text \<open>\<open>self[key]\<close>: the local entry, else \<open>__missing__\<close>, which asks the parent.\<close>

fun scope_getitem :: "string \<Rightarrow> 'v scope \<Rightarrow> error + 'v" where
  "scope_getitem key (Scope its ivd par) =
     (case map_of its key of
        Some v \<Rightarrow> Inr v
      | None \<Rightarrow> (case par of Some p \<Rightarrow> scope_getitem key p | None \<Rightarrow> Inl (KeyError key)))"

text \<open>
  \<open>get_or_create\<close> returns the value, the scope afterwards, and the names on which the
  callback was invoked (the callback is a pure function here, so its invocations are
  logged to make them observable).
\<close>

definition get_or_create ::
  "string \<Rightarrow> (string \<Rightarrow> 'v) \<Rightarrow> 'v scope \<Rightarrow> error + ('v \<times> 'v scope \<times> string list)" where
  "get_or_create name callback s =
     (if \<not> scope_contains name s then
        (let val = callback name in Inr (val, scope_setitem name val s, [name]))
      else (case scope_getitem name s of
              Inl e \<Rightarrow> Inl e
            | Inr val \<Rightarrow> Inr (val, s, [])))"

definition get_no_parent :: "string \<Rightarrow> 'v scope \<Rightarrow> error + 'v" where
  "get_no_parent key s =
     (if contains_no_parent key s then scope_getitem key s else Inl (KeyError key))"

fun for_value :: "'v \<Rightarrow> bool \<Rightarrow> 'v scope \<Rightarrow> error + string" where
  "for_value val look_parent (Scope its ivd par) =
     (case map_of ivd val of
        Some n \<Rightarrow> Inr n
      | None \<Rightarrow>
          (if look_parent then
             (case par of Some p \<Rightarrow> for_value val True p | None \<Rightarrow> Inl ValueKeyError)
           else Inl ValueKeyError))"

section \<open>Values and instructions\<close>

text \<open>
  \<open>VarType\<close> comes from the variables module; the core names its members \<open>i32\<close> and
  \<open>q10\<close> only.
\<close>

datatype vartype = i32 | q10 | other_type string

text \<open>
  \<open>class ExternFunction\<close>. Python compares and hashes these objects by identity, so the
  record carries the identity of the object next to the three fields of \<open>__init__\<close>.
\<close>

record extern_function =
  ext_id :: nat
  gname :: string
  ext_params :: "(vartype \<times> string) list"
  ext_returns :: "vartype list"

text \<open>
  The values that scopes hold and instructions take as arguments. A scope entry is a
  reference to an object: a block is referred to by its owning function's name and its
  own \<open>_name\<close>, a function by its \<open>_name\<close>, a variable by the identity of the object
  together with the attributes fixed at construction (its type and, for a parameter, its
  pass type). The mutable state of blocks and functions lives in the holder that owns
  them.
\<close>

datatype pyval =
    NoneVal
  | IntVal int
  | FloatVal int int
  | StrVal string
  | TypeVal vartype
  | TypeTuple "vartype list"
  | BasicBlockRef string string
  | SuperBlockRef string string
  | ParameterVariable nat vartype string
  | ReturnVariable nat vartype
  | LocalVariable nat vartype
  | OtherVariable nat vartype
  | IRFunctionRef string
  | ExternFunctionRef extern_function
  | OtherEntity string

fun is_block :: "pyval \<Rightarrow> bool" where
  "is_block (BasicBlockRef f n) = True"
| "is_block (SuperBlockRef f n) = True"
| "is_block _ = False"

fun is_variable :: "pyval \<Rightarrow> bool" where
  "is_variable (ParameterVariable i t p) = True"
| "is_variable (ReturnVariable i t) = True"
| "is_variable (LocalVariable i t) = True"
| "is_variable (OtherVariable i t) = True"
| "is_variable _ = False"

fun var_type :: "pyval \<Rightarrow> vartype" where
  "var_type (ParameterVariable i t p) = t"
| "var_type (ReturnVariable i t) = t"
| "var_type (LocalVariable i t) = t"
| "var_type (OtherVariable i t) = t"
| "var_type _ = other_type []"

fun block_name :: "pyval \<Rightarrow> string" where
  "block_name (BasicBlockRef f n) = n"
| "block_name (SuperBlockRef f n) = n"
| "block_name _ = []"

text \<open>
  The instruction set is outside the core, which treats an instruction as a node of some
  class holding argument values; a constructor instruction also remembers the entity it
  built (\<open>_value\<close>). The classes listed by name are those the core itself creates or
  tests for.
\<close>

datatype insn_class =
    Return | Branch | PushNewStackFrame | PopStack | SetScore | RunDeferredCallback
  | RevokeEventAdvancement | DefineVariable | DefineGlobal | OtherInsn string

datatype insn = Insn (insn_class: insn_class) (insn_args: "pyval list") (insn_value: "pyval option")

section \<open>BasicBlock and SuperBlock\<close>

record basic_block =
  name :: string
  func :: string
  insns :: "insn list"
  needs_success_tracker :: bool
  defined :: bool
  is_function :: bool
  force :: bool
  use :: nat

record super_block = basic_block +
  clear :: bool
  is_entry :: bool

definition BasicBlock_init :: "string \<Rightarrow> string \<Rightarrow> basic_block" where
  "BasicBlock_init nm fn =
     \<lparr>name = nm, func = fn, insns = [], needs_success_tracker = False, defined = False,
      is_function = False, force = False, use = 0\<rparr>"

definition SuperBlock_init :: "string \<Rightarrow> string \<Rightarrow> super_block" where
  "SuperBlock_init nm fn =
     \<lparr>name = nm, func = fn, insns = [], needs_success_tracker = False, defined = True,
      is_function = False, force = False, use = 0, clear = False, is_entry = False\<rparr>"

text \<open>The methods of \<open>BasicBlock\<close>; they apply to a \<open>SuperBlock\<close> through \<open>super()\<close>.\<close>

definition usage :: "'a basic_block_scheme \<Rightarrow> 'a basic_block_scheme" where
  "usage b = b\<lparr>use := use b + 1\<rparr>"

definition reset :: "'a basic_block_scheme \<Rightarrow> 'a basic_block_scheme" where
  "reset b = b\<lparr>use := 0\<rparr>"

definition use_count :: "'a basic_block_scheme \<Rightarrow> nat" where
  "use_count b = use b"

definition is_empty :: "'a basic_block_scheme \<Rightarrow> bool" where
  "is_empty b = (length (insns b) = 0)"

text \<open>
  \<open>validate_insn\<close>. The instruction's \<open>terminator()\<close> is the parameter \<open>tm\<close>;
  \<open>exitblock\<close> is \<open>self._func._exitblock\<close>.
\<close>

definition validate_insn ::
  "(insn \<Rightarrow> bool) \<Rightarrow> pyval \<Rightarrow> 'a basic_block_scheme \<Rightarrow> insn \<Rightarrow> error + insn" where
  "validate_insn tm exitblock b i =
     (if \<not> force b \<and> insns b \<noteq> [] \<and> tm (last (insns b)) then
        Inl (AssertionError ''Block is terminated'')
      else if insn_class i = Return then Inr (Insn Branch [exitblock] None)
      else Inr i)"

text \<open>
  \<open>InstructionSeq.add\<close> on a block, called without \<open>with_name\<close>: validate, activate,
  append. Activation is the instruction's own hook and does not touch the sequence.
\<close>

definition add ::
  "(insn \<Rightarrow> bool) \<Rightarrow> pyval \<Rightarrow> insn \<Rightarrow> 'a basic_block_scheme \<Rightarrow> error + 'a basic_block_scheme" where
  "add tm exitblock i b =
     (case validate_insn tm exitblock b i of
        Inl e \<Rightarrow> Inl e
      | Inr i' \<Rightarrow> Inr (b\<lparr>insns := insns b @ [i']\<rparr>))"

definition is_terminated :: "(insn \<Rightarrow> bool) \<Rightarrow> 'a basic_block_scheme \<Rightarrow> error + bool" where
  "is_terminated tm b =
     (if \<not> defined b then Inl (AssertionError [])
      else if is_function b then Inr True
      else if insns b = [] then Inr False
      else Inr (tm (last (insns b))))"

text \<open>The overrides of \<open>SuperBlock\<close>.\<close>

definition super_usage :: "super_block \<Rightarrow> super_block" where
  "super_usage b = (if clear b then usage b else b)"

definition super_use_count :: "super_block \<Rightarrow> nat" where
  "super_use_count b =
     (if clear b then (if is_entry b then 1 + use_count b else use_count b) else 2)"

definition superclear :: "super_block \<Rightarrow> super_block" where
  "superclear b = b\<lparr>clear := True\<rparr>"

definition super_is_empty :: "super_block \<Rightarrow> bool" where
  "super_is_empty b = (clear b \<and> is_empty b)"

definition super_reset :: "super_block \<Rightarrow> super_block" where
  "super_reset b = (if clear b then reset b else b)"

text \<open>A sequence of method calls on one SuperBlock, in call order.\<close>

datatype block_call = CallUsage | CallSuperclear | CallReset

fun super_call :: "block_call \<Rightarrow> super_block \<Rightarrow> super_block" where
  "super_call CallUsage b = super_usage b"
| "super_call CallSuperclear b = superclear b"
| "super_call CallReset b = super_reset b"

definition super_calls :: "block_call list \<Rightarrow> super_block \<Rightarrow> super_block" where
  "super_calls cs b = fold super_call cs b"

section \<open>VariableHolder: unique names\<close>

text \<open>The decimal numeral that \<open>'%s%d' % (hint, i)\<close> prints for a natural number.\<close>

definition digit_char :: "nat \<Rightarrow> char" where
  "digit_char d = char_of (48 + d)"

function string_of_nat :: "nat \<Rightarrow> string" where
  "string_of_nat n =
     (if n < 10 then [digit_char n] else string_of_nat (n div 10) @ [digit_char (n mod 10)])"
  by pat_completeness auto
termination
  by (relation "measure id") auto

declare string_of_nat.simps [simp del]

definition digit_val :: "char \<Rightarrow> nat" where
  "digit_val c = of_char c - 48"

definition nat_of_string :: "string \<Rightarrow> nat" where
  "nat_of_string cs = foldl (\<lambda>a c. 10 * a + digit_val c) 0 cs"

lemma digit_val_digit_char: "d < 10 \<Longrightarrow> digit_val (digit_char d) = d"
  by (simp add: digit_val_def digit_char_def)

lemma nat_of_string_of_nat: "nat_of_string (string_of_nat n) = n"
proof (induction n rule: string_of_nat.induct)
  case (1 n)
  show ?case
  proof (cases "n < 10")
    case True
    then show ?thesis
      by (subst string_of_nat.simps) (simp add: nat_of_string_def digit_val_digit_char)
  next
    case False
    then have "nat_of_string (string_of_nat (n div 10)) = n div 10"
      using 1 by simp
    then have "nat_of_string (string_of_nat (n div 10) @ [digit_char (n mod 10)])
        = 10 * (n div 10) + n mod 10"
      by (simp add: nat_of_string_def digit_val_digit_char)
    with False show ?thesis
      by (subst string_of_nat.simps) simp
  qed
qed

text \<open>All keys of a scope chain, and a bound on the numbers that follow a hint in them.\<close>

fun chain_keys :: "'v scope \<Rightarrow> string list" where
  "chain_keys (Scope its ivd par) =
     map fst its @ (case par of Some p \<Rightarrow> chain_keys p | None \<Rightarrow> [])"

definition suffix_bound :: "string \<Rightarrow> 'v scope \<Rightarrow> nat" where
  "suffix_bound hint s =
     Suc (Max (insert 0 ((\<lambda>k. nat_of_string (drop (length hint) k)) ` set (chain_keys s))))"

lemma scope_contains_chain_keys: "scope_contains key s = (key \<in> set (chain_keys s))"
proof (induction key s rule: scope_contains.induct)
  case (1 key its ivd par)
  then show ?case by (cases par) auto
qed

lemma suffix_below_bound:
  assumes "scope_contains (hint @ string_of_nat i) s"
  shows "i < suffix_bound hint s"
proof -
  let ?f = "\<lambda>k. nat_of_string (drop (length hint) k)"
  have "hint @ string_of_nat i \<in> set (chain_keys s)"
    using assms by (simp add: scope_contains_chain_keys)
  then have "?f (hint @ string_of_nat i) \<in> insert 0 (?f ` set (chain_keys s))"
    by blast
  then have "?f (hint @ string_of_nat i) \<le> Max (insert 0 (?f ` set (chain_keys s)))"
    by (intro Max_ge) auto
  then show ?thesis
    by (simp add: suffix_bound_def nat_of_string_of_nat)
qed

text \<open>The \<open>while\<close> loop of \<open>uniq_name\<close>, from counter \<open>i\<close> on.\<close>

function uniq_loop :: "string \<Rightarrow> 'v scope \<Rightarrow> nat \<Rightarrow> string" where
  "uniq_loop hint s i =
     (if scope_contains (hint @ string_of_nat i) s then uniq_loop hint s (Suc i)
      else hint @ string_of_nat i)"
  by pat_completeness auto
termination
proof (relation "measure (\<lambda>(hint, s, i). suffix_bound hint s - i)")
  show "wf (measure (\<lambda>(hint, s, i). suffix_bound hint s - i))"
    by simp
next
  fix hint :: string and s :: "'v scope" and i :: nat
  assume "scope_contains (hint @ string_of_nat i) s"
  then have "i < suffix_bound hint s"
    by (rule suffix_below_bound)
  then show "((hint, s, Suc i), (hint, s, i)) \<in> measure (\<lambda>(hint, s, i). suffix_bound hint s - i)"
    by simp
qed

declare uniq_loop.simps [simp del]

definition uniq_name :: "string \<Rightarrow> 'v scope \<Rightarrow> string" where
  "uniq_name hint s = (if \<not> scope_contains hint s then hint else uniq_loop hint s 0)"

definition uniq :: "string \<Rightarrow> (string \<Rightarrow> 'v) \<Rightarrow> 'v scope \<Rightarrow> 'v \<times> 'v scope" where
  "uniq hint callback s =
     (let nm = uniq_name hint s; obj = callback nm in (obj, scope_setitem nm obj s))"

definition store :: "string \<Rightarrow> 'v \<Rightarrow> 'v scope \<Rightarrow> error + 'v scope" where
  "store nm val s =
     (if contains_no_parent nm s then Inl (AssertionError nm) else Inr (scope_setitem nm val s))"

definition lookup :: "string \<Rightarrow> 'v scope \<Rightarrow> error + 'v option" where
  "lookup nm s =
     (if scope_contains nm s then
        (case scope_getitem nm s of Inl e \<Rightarrow> Inl e | Inr v \<Rightarrow> Inr (Some v))
      else Inr None)"

definition name_for :: "'v \<Rightarrow> 'v scope \<Rightarrow> error + string" where
  "name_for val s = for_value val True s"

section \<open>IRFunction\<close>

definition bind_err :: "error + 'a \<Rightarrow> ('a \<Rightarrow> error + 'b) \<Rightarrow> error + 'b" where
  "bind_err m k = (case m of Inl e \<Rightarrow> Inl e | Inr x \<Rightarrow> k x)"

text \<open>
  Modelled from the spec: the variables module is outside the core. A local variable is
  a proxy for the storage it was allocated (\<open>var.var\<close>), which is a frame slot
  (\<open>NbtOffsetVariable\<close>, with its type and offset) when the local is stack-resident;
  \<open>set_proxy\<close> gives a parameter or return variable a dedicated stack slot
  (\<open>LocalStackVariable\<close>, type and offset) and \<open>realign_frame(1)\<close> shifts the slot's
  addressing by one frame level.
\<close>

datatype proxy =
    NoProxy
  | NbtOffsetVariable vartype int
  | LocalStackVariable vartype nat nat
  | OtherProxy

text \<open>
  \<open>class IRFunction\<close>. The scope holds references; the state of the blocks the function
  owns is in \<open>basic_blocks\<close> and \<open>super_blocks\<close>, by block name, and the proxies of its
  variables in \<open>var_proxy\<close>, by object identity.
\<close>

record irfunction =
  fscope :: "pyval scope"
  fname :: string
  preamble :: "insn list"
  finished :: bool
  fuse :: nat
  entryblock :: pyval
  exitblock :: pyval
  post_exit_insns :: "insn list"
  varsfinalized :: bool
  is_extern :: bool
  is_pure :: bool
  is_inline :: bool
  params :: "(vartype \<times> string) list"
  returns :: "vartype list"
  future_expect_sig :: "((vartype \<times> string) list \<times> vartype list) list"
  basic_blocks :: "string \<Rightarrow> basic_block"
  super_blocks :: "string \<Rightarrow> super_block"
  var_proxy :: "nat \<Rightarrow> proxy"

text \<open>\<open>__init__(name, top)\<close>, where \<open>top_scope\<close> is \<open>top.scope\<close>.\<close>

definition IRFunction_init :: "string \<Rightarrow> pyval scope \<Rightarrow> irfunction" where
  "IRFunction_init nm top_scope =
     (let s0 = Scope [] [] (Some top_scope);
          (entry, s1) = uniq ''0entry'' (SuperBlockRef nm) s0;
          (exit, s2) = uniq ''0ret'' (SuperBlockRef nm) s1
      in \<lparr>fscope = s2, fname = nm, preamble = [], finished = False, fuse = 0,
          entryblock = entry, exitblock = exit, post_exit_insns = [],
          varsfinalized = False, is_extern = False, is_pure = False, is_inline = False,
          params = [], returns = [], future_expect_sig = [],
          basic_blocks = (\<lambda>n. BasicBlock_init n nm),
          super_blocks = (\<lambda>n. (SuperBlock_init n nm)\<lparr>is_entry := (n = block_name entry)\<rparr>),
          var_proxy = (\<lambda>i. NoProxy)\<rparr>)"

definition allblocks :: "irfunction \<Rightarrow> pyval list" where
  "allblocks f = filter is_block (scope_values (fscope f))"

definition blocks :: "irfunction \<Rightarrow> pyval list" where
  "blocks f = filter (\<lambda>b. b \<notin> set [entryblock f, exitblock f]) (allblocks f)"

definition is_defined :: "irfunction \<Rightarrow> bool" where
  "is_defined f =
     (if \<not> varsfinalized f then length (blocks f) > 0 else length (allblocks f) > 0)"

definition create_block :: "string \<Rightarrow> irfunction \<Rightarrow> pyval \<times> irfunction" where
  "create_block namehint f =
     (let (blk, s) = uniq namehint (BasicBlockRef (fname f)) (fscope f);
          n = block_name blk
      in (blk, f\<lparr>fscope := s,
                 basic_blocks := (basic_blocks f)(n := (BasicBlock_init n (fname f))\<lparr>defined := True\<rparr>)\<rparr>))"

text \<open>The instruction list of a block of the function, whichever class the block has.\<close>

fun block_insns :: "irfunction \<Rightarrow> pyval \<Rightarrow> insn list" where
  "block_insns f (BasicBlockRef fn n) = insns (basic_blocks f n)"
| "block_insns f (SuperBlockRef fn n) = insns (super_blocks f n)"
| "block_insns f _ = []"

text \<open>
  \<open>block.add(insn)\<close> for a block of the function: \<open>BasicBlock.validate_insn\<close> with the
  function's exit block, then the append.
\<close>

fun block_add :: "(insn \<Rightarrow> bool) \<Rightarrow> pyval \<Rightarrow> insn \<Rightarrow> irfunction \<Rightarrow> error + irfunction" where
  "block_add tm (BasicBlockRef fn n) i f =
     bind_err (add tm (exitblock f) i (basic_blocks f n))
       (\<lambda>b. Inr (f\<lparr>basic_blocks := (basic_blocks f)(n := b)\<rparr>))"
| "block_add tm (SuperBlockRef fn n) i f =
     bind_err (add tm (exitblock f) i (super_blocks f n))
       (\<lambda>b. Inr (f\<lparr>super_blocks := (super_blocks f)(n := b)\<rparr>))"
| "block_add tm _ i f = Inl (AttributeError ''add'')"

text \<open>\<open>for insn in insns: block.add(insn)\<close>, stopping at the first failure.\<close>

fun block_add_all ::
  "(insn \<Rightarrow> bool) \<Rightarrow> pyval \<Rightarrow> insn list \<Rightarrow> irfunction \<Rightarrow> error + irfunction" where
  "block_add_all tm blk [] f = Inr f"
| "block_add_all tm blk (i # is) f = bind_err (block_add tm blk i f) (block_add_all tm blk is)"

fun block_is_terminated :: "(insn \<Rightarrow> bool) \<Rightarrow> irfunction \<Rightarrow> pyval \<Rightarrow> error + bool" where
  "block_is_terminated tm f (BasicBlockRef fn n) = is_terminated tm (basic_blocks f n)"
| "block_is_terminated tm f (SuperBlockRef fn n) = is_terminated tm (super_blocks f n)"
| "block_is_terminated tm f _ = Inl (AttributeError ''is_terminated'')"

text \<open>\<open>all(b.is_terminated() for b in ...)\<close>: \<open>all\<close> stops at the first \<open>False\<close>.\<close>

fun all_terminated :: "(insn \<Rightarrow> bool) \<Rightarrow> irfunction \<Rightarrow> pyval list \<Rightarrow> error + bool" where
  "all_terminated tm f [] = Inr True"
| "all_terminated tm f (b # bs) =
     bind_err (block_is_terminated tm f b)
       (\<lambda>t. if t then all_terminated tm f bs else Inr False)"

definition is_closed :: "(insn \<Rightarrow> bool) \<Rightarrow> irfunction \<Rightarrow> error + bool" where
  "is_closed tm f = all_terminated tm f (blocks f)"

text \<open>
  The stack-resident locals of \<open>add_entry_exit\<close>: for each \<open>LocalVariable\<close> of the scope
  whose proxy is an \<open>NbtOffsetVariable\<close>, that proxy (its type and offset), sorted by
  offset. Python's \<open>sorted\<close> is stable, as \<^const>\<open>sort_key\<close> is.
\<close>

fun nbt_offset_var :: "(nat \<Rightarrow> proxy) \<Rightarrow> pyval \<Rightarrow> (vartype \<times> int) list" where
  "nbt_offset_var px (LocalVariable i t) =
     (case px i of NbtOffsetVariable ty off \<Rightarrow> [(ty, off)] | _ \<Rightarrow> [])"
| "nbt_offset_var px _ = []"

definition stack_vars :: "irfunction \<Rightarrow> (vartype \<times> int) list" where
  "stack_vars f =
     sort_key snd (concat (map (nbt_offset_var (var_proxy f)) (scope_values (fscope f))))"

definition add_entry_exit ::
  "(insn \<Rightarrow> bool) \<Rightarrow> irfunction \<Rightarrow> error + ((vartype \<times> int) list \<times> irfunction)" where
  "add_entry_exit tm f =
     (let vars = stack_vars f in
      bind_err
        (if vars \<noteq> [] then
           (if snd (hd vars) \<noteq> 0 then Inl (AssertionError ''Stack tip not 0'')
            else if snd (last vars) \<noteq> int (length vars) - 1 then
              Inl (AssertionError ''Stack base not length - 1'')
            else if card (set (map snd vars)) \<noteq> length vars then
              Inl (AssertionError ''Stack collision'')
            else
              bind_err
                (block_add tm (entryblock f)
                   (Insn PushNewStackFrame [TypeTuple (map fst (rev vars))] None) f)
                (block_add tm (exitblock f) (Insn PopStack [] None)))
         else Inr f)
        (\<lambda>f1. bind_err (block_add_all tm (exitblock f1) (post_exit_insns f1) f1)
        (\<lambda>f2. (case blocks f2 of
                  [] \<Rightarrow> Inl IndexError
                | b0 # bs \<Rightarrow>
                    bind_err (block_add tm (entryblock f2) (Insn Branch [b0] None) f2)
                      (\<lambda>f3. Inr (vars, f3))))))"

text \<open>
  \<open>configure_parameters\<close>: parameters in scope order, then the return variables, at
  increasing offsets.
\<close>

fun set_proxies :: "bool \<Rightarrow> nat \<Rightarrow> pyval list \<Rightarrow> (nat \<Rightarrow> proxy) \<Rightarrow> (nat \<Rightarrow> proxy)" where
  "set_proxies own offset [] px = px"
| "set_proxies own offset (v # vs) px =
     (case v of
        ParameterVariable i t p \<Rightarrow>
          set_proxies own (offset + 1) vs
            (px(i := LocalStackVariable t offset (if own then 1 else 0)))
      | ReturnVariable i t \<Rightarrow>
          set_proxies own (offset + 1) vs
            (px(i := LocalStackVariable t offset (if own then 1 else 0)))
      | _ \<Rightarrow> set_proxies own offset vs px)"

fun is_parameter :: "pyval \<Rightarrow> bool" where
  "is_parameter (ParameterVariable i t p) = True"
| "is_parameter _ = False"

fun is_return :: "pyval \<Rightarrow> bool" where
  "is_return (ReturnVariable i t) = True"
| "is_return _ = False"

definition configure_parameters :: "bool \<Rightarrow> irfunction \<Rightarrow> irfunction" where
  "configure_parameters hasownstackframe f =
     (let vals = scope_values (fscope f) in
      f\<lparr>var_proxy :=
          set_proxies hasownstackframe 0 (filter is_parameter vals @ filter is_return vals)
            (var_proxy f)\<rparr>)"

definition set_force :: "pyval \<Rightarrow> bool \<Rightarrow> irfunction \<Rightarrow> irfunction" where
  "set_force blk v f =
     f\<lparr>super_blocks := (super_blocks f)
          (block_name blk := (super_blocks f (block_name blk))\<lparr>force := v\<rparr>)\<rparr>"

definition clear_insns :: "pyval \<Rightarrow> irfunction \<Rightarrow> irfunction" where
  "clear_insns blk f =
     f\<lparr>super_blocks := (super_blocks f)
          (block_name blk := (super_blocks f (block_name blk))\<lparr>insns := []\<rparr>)\<rparr>"

definition fn_superclear :: "pyval \<Rightarrow> irfunction \<Rightarrow> irfunction" where
  "fn_superclear blk f =
     f\<lparr>super_blocks := (super_blocks f)
          (block_name blk := superclear (super_blocks f (block_name blk)))\<rparr>"

definition variables_finalized :: "(insn \<Rightarrow> bool) \<Rightarrow> irfunction \<Rightarrow> error + irfunction" where
  "variables_finalized tm f =
     (if \<not> is_defined f then Inl (AssertionError (fname f))
      else if varsfinalized f then Inl (AssertionError (fname f))
      else
        bind_err (add_entry_exit tm f)
        (\<lambda>(stackvars, f1).
           let f2 = configure_parameters (stackvars \<noteq> []) f1 in
           bind_err (is_closed tm f2)
           (\<lambda>closed.
              bind_err
                (if closed then
                   (let f3 = set_force (entryblock f2) True f2 in
                    bind_err
                      (block_add_all tm (entryblock f3) (block_insns f3 (exitblock f3)) f3)
                      (\<lambda>f4. Inr (clear_insns (exitblock f4) f4)))
                 else Inr f2)
                (\<lambda>f5. Inr ((fn_superclear (exitblock f5) (fn_superclear (entryblock f5) f5))
                              \<lparr>varsfinalized := True\<rparr>)))))"

section \<open>VisibleFunction, ExternFunction and TopLevel\<close>

text \<open>
  The values a caller can hand to \<open>ExternFunction.__init__\<close> for \<open>params\<close> and
  \<open>returns\<close>: \<open>None\<close> (the default), a list, or some other object; the core itself
  passes a \<open>TopLevel\<close> there. \<open>list(x or [])\<close> is the empty list for \<open>None\<close>, a
  copy of a list, and a \<open>TypeError\<close> for a \<open>TopLevel\<close>, which is truthy and not
  iterable.
\<close>

datatype 'a ctor_arg = ArgNone | ArgList "'a list" | ArgTopLevel

fun list_or_empty :: "'a ctor_arg \<Rightarrow> error + 'a list" where
  "list_or_empty ArgNone = Inr []"
| "list_or_empty (ArgList xs) = Inr xs"
| "list_or_empty ArgTopLevel = Inl (TypeError ''TopLevel object is not iterable'')"

text \<open>\<open>ExternFunction.__init__\<close>; \<open>oid\<close> is the identity of the new object.\<close>

definition ExternFunction_init ::
  "nat \<Rightarrow> string \<Rightarrow> (vartype \<times> string) ctor_arg \<Rightarrow> vartype ctor_arg
   \<Rightarrow> error + extern_function" where
  "ExternFunction_init oid global_name ps rs =
     bind_err (list_or_empty ps) (\<lambda>ps'.
     bind_err (list_or_empty rs) (\<lambda>rs'.
       if list_all (\<lambda>(ptype, ppass). ppass \<in> set [''byval'', ''byref'']) ps' then
         Inr \<lparr>ext_id = oid, gname = global_name, ext_params = ps', ext_returns = rs'\<rparr>
       else Inl (AssertionError [])))"

text \<open>\<open>ExternFunction.finished\<close>: the property returns \<open>True\<close>.\<close>

definition extern_finished :: "extern_function \<Rightarrow> bool" where
  "extern_finished e = True"

text \<open>
  \<open>class TopLevel\<close>. The scope holds references; the state of the functions a unit owns
  is in \<open>funcs\<close>, by function name.
\<close>

record toplevel =
  top_scope :: "pyval scope"
  top_preamble :: "insn list"
  top_finished :: bool
  pragmas :: "(string \<times> pyval) list"
  funcs :: "string \<Rightarrow> irfunction"

definition TopLevel_init :: toplevel where
  "TopLevel_init =
     \<lparr>top_scope =
        scope_setitem ''_global_entity'' (OtherEntity ''GlobalEntity'')
          (scope_setitem ''pos_util'' (OtherEntity ''PosUtilEntity'') (Scope [] [] None)),
      top_preamble = [], top_finished = False, pragmas = [],
      funcs = (\<lambda>n. IRFunction_init n (Scope [] [] None))\<rparr>"

fun is_visible_function :: "pyval \<Rightarrow> bool" where
  "is_visible_function (IRFunctionRef n) = True"
| "is_visible_function (ExternFunctionRef e) = True"
| "is_visible_function _ = False"

text \<open>The \<open>finished\<close> property of a visible function of a unit.\<close>

fun fn_finished :: "toplevel \<Rightarrow> pyval \<Rightarrow> bool" where
  "fn_finished t (IRFunctionRef n) = finished (funcs t n)"
| "fn_finished t (ExternFunctionRef e) = extern_finished e"
| "fn_finished t _ = False"

text \<open>The \<open>global_name\<close> property.\<close>

fun global_name :: "toplevel \<Rightarrow> pyval \<Rightarrow> error + string" where
  "global_name t (IRFunctionRef n) =
     (if is_defined (funcs t n) then Inr (fname (funcs t n))
      else Inl (AssertionError (fname (funcs t n))))"
| "global_name t (ExternFunctionRef e) =
     Inl (AssertionError (''Extern function cannot be referenced: '' @ gname e))"
| "global_name t _ = Inl (AttributeError ''global_name'')"

text \<open>The loop of \<open>TopLevel.end\<close> over \<open>self.scope.items()\<close>.\<close>

fun end_loop :: "toplevel \<Rightarrow> (string \<times> pyval) list \<Rightarrow> error + unit" where
  "end_loop t [] = Inr ()"
| "end_loop t ((nm, var) # rest) =
     (if is_visible_function var \<and> \<not> fn_finished t var then
        Inl (AssertionError (''unfinished function '' @ nm))
      else end_loop t rest)"

definition top_end :: "toplevel \<Rightarrow> error + toplevel" where
  "top_end t =
     (if top_finished t then Inl (AssertionError [])
      else bind_err (end_loop t (items (top_scope t)))
             (\<lambda>u. Inr (t\<lparr>top_finished := True\<rparr>)))"

text \<open>
  \<open>include_from\<close>: for each entry of \<open>other.scope\<close> that is a visible function whose
  name does not start with two underscores, \<open>ExternFunction(var.global_name, self)\<close> is
  built (so \<open>params\<close> receives the unit itself and \<open>returns\<close> the default) and stored
  under the name. \<open>oid\<close> is the identity the next new object gets.
\<close>

fun include_loop ::
  "toplevel \<Rightarrow> (string \<times> pyval) list \<Rightarrow> nat \<Rightarrow> toplevel \<Rightarrow> error + toplevel" where
  "include_loop other [] oid self = Inr self"
| "include_loop other ((nm, var) # rest) oid self =
     (if is_visible_function var \<and> \<not> (take 2 nm = ''__'') then
        bind_err (global_name other var) (\<lambda>g.
        bind_err (ExternFunction_init oid g ArgTopLevel ArgNone) (\<lambda>e.
          include_loop other rest (Suc oid)
            (self\<lparr>top_scope := scope_setitem nm (ExternFunctionRef e) (top_scope self)\<rparr>)))
      else include_loop other rest oid self)"

definition include_from :: "toplevel \<Rightarrow> nat \<Rightarrow> toplevel \<Rightarrow> error + toplevel" where
  "include_from other oid self = include_loop other (items (top_scope other)) oid self"

section \<open>ObjectFormat\<close>

text \<open>
  An \<open>ObjectFormat\<close> object holds the unit and the version stamp. What \<open>pickle.loads\<close>
  can return is any object: an \<open>ObjectFormat\<close>, a bare unit, or something else (which
  has no version attribute).
\<close>

record object_format =
  obj_top :: toplevel
  obj_version :: string

datatype pyobject = ObjectFormatObj object_format | TopLevelObj toplevel | OtherObj string

definition VERSION :: string where
  "VERSION = ''1.0.0''"

definition ObjectFormat_init :: "toplevel \<Rightarrow> object_format" where
  "ObjectFormat_init t = \<lparr>obj_top = t, obj_version = VERSION\<rparr>"

text \<open>
  \<open>pickle\<close> and \<open>zlib\<close> are library code: \<open>dumps\<close> is the composition
  \<open>zlib.compress \<circ> pickle.dumps\<close> and \<open>loads\<close> is
  \<open>pickle.loads \<circ> zlib.decompress\<close>, which fails on bytes that are no blob. They
  are parameters of \<open>save\<close> and \<open>load\<close>.
\<close>

definition save :: "(pyobject \<Rightarrow> 'blob) \<Rightarrow> toplevel \<Rightarrow> 'blob" where
  "save dumps t = dumps (ObjectFormatObj (ObjectFormat_init t))"

definition load :: "('blob \<Rightarrow> pyobject option) \<Rightarrow> 'blob \<Rightarrow> error + pyobject" where
  "load loads data =
     (case loads data of
        None \<Rightarrow> Inl DecodeError
      | Some (ObjectFormatObj obj) \<Rightarrow>
          (if obj_version obj = VERSION then Inr (ObjectFormatObj obj) else Inl (AssertionError []))
      | Some other \<Rightarrow> Inl (AttributeError ''_ObjectFormat__version''))"

section \<open>Notions used in the statements about finalization\<close>

text \<open>
  What \<open>validate_insn\<close> returns when it does not fail; appending instructions to a
  SuperBlock of a function; the frame instructions \<open>add_entry_exit\<close> adds for a list
  of stack-resident locals; the class test for a plain \<open>BasicBlock\<close>.
\<close>

definition rewrite_return :: "pyval \<Rightarrow> insn \<Rightarrow> insn" where
  "rewrite_return ex i = (if insn_class i = Return then Insn Branch [ex] None else i)"

definition append_insns :: "string \<Rightarrow> insn list \<Rightarrow> irfunction \<Rightarrow> irfunction" where
  "append_insns n is f =
     f\<lparr>super_blocks := (super_blocks f)
          (n := (super_blocks f n)\<lparr>insns := insns (super_blocks f n) @ is\<rparr>)\<rparr>"

definition frame_push :: "(vartype \<times> int) list \<Rightarrow> insn list" where
  "frame_push vars =
     (if vars \<noteq> [] then [Insn PushNewStackFrame [TypeTuple (map fst (rev vars))] None] else [])"

definition frame_pop :: "(vartype \<times> int) list \<Rightarrow> insn list" where
  "frame_pop vars = (if vars \<noteq> [] then [Insn PopStack [] None] else [])"

fun is_basic :: "pyval \<Rightarrow> bool" where
  "is_basic (BasicBlockRef fn n) = True"
| "is_basic _ = False"

text \<open>The instruction lists of the two SuperBlocks of a function.\<close>

definition entry_insns_of :: "irfunction \<Rightarrow> insn list" where
  "entry_insns_of f = block_insns f (entryblock f)"

definition exit_insns_of :: "irfunction \<Rightarrow> insn list" where
  "exit_insns_of f = block_insns f (exitblock f)"

section \<open>Example functions\<close>

text \<open>
  An instruction set in which exactly the branches are terminators, and a function
  \<open>f\<close> as a front end leaves it before finalization: one user block \<open>entry\<close>
  that ends in the branch a \<open>Return\<close> became, an entry SuperBlock that already holds
  the advancement revocation of an event handler, and two locals \<open>x\<close> and \<open>y\<close>
  with the given storage.
\<close>

definition branch_terminates :: "insn \<Rightarrow> bool" where
  "branch_terminates i = (insn_class i = Branch)"

definition example_fn_with :: "proxy \<Rightarrow> proxy \<Rightarrow> irfunction" where
  "example_fn_with px py =
     (let (b, f) = create_block ''entry'' (IRFunction_init ''f'' (Scope [] [] None)) in
      f\<lparr>fscope := scope_setitem ''y'' (LocalVariable 2 q10)
                    (scope_setitem ''x'' (LocalVariable 1 i32) (fscope f)),
        var_proxy := (var_proxy f)(1 := px, 2 := py),
        basic_blocks := (basic_blocks f)
          (''entry'' := (basic_blocks f ''entry'')
             \<lparr>insns := [Insn Branch [SuperBlockRef ''f'' ''0ret''] None]\<rparr>),
        super_blocks := (super_blocks f)
          (''0entry'' := (super_blocks f ''0entry'')
             \<lparr>insns := [Insn RevokeEventAdvancement [IRFunctionRef ''f''] None]\<rparr>)\<rparr>)"

definition example_fn :: irfunction where
  "example_fn = example_fn_with (NbtOffsetVariable i32 1) (NbtOffsetVariable q10 0)"

definition example_gap_fn :: irfunction where
  "example_gap_fn = example_fn_with (NbtOffsetVariable i32 2) (NbtOffsetVariable q10 0)"

section \<open>Example units\<close>

text \<open>
  The class test for an extern stub; a unit that holds the example function \<open>f\<close>,
  finished, and an extern stub \<open>g\<close>; the same unit with \<open>f\<close> not yet finished;
  the unit once \<open>end\<close> has closed it; and an \<open>ObjectFormat\<close> object around the
  closed unit with a given version stamp.
\<close>

fun is_extern_function :: "pyval \<Rightarrow> bool" where
  "is_extern_function (ExternFunctionRef e) = True"
| "is_extern_function _ = False"

definition example_stub :: extern_function where
  "example_stub = \<lparr>ext_id = 7, gname = ''g'', ext_params = [(i32, ''byval'')], ext_returns = [i32]\<rparr>"

definition example_unit :: toplevel where
  "example_unit =
     TopLevel_init
       \<lparr>top_scope := scope_setitem ''g'' (ExternFunctionRef example_stub)
                       (scope_setitem ''f'' (IRFunctionRef ''f'') (top_scope TopLevel_init)),
        funcs := (funcs TopLevel_init)(''f'' := example_fn\<lparr>finished := True\<rparr>)\<rparr>"

definition example_unfinished_unit :: toplevel where
  "example_unfinished_unit = example_unit\<lparr>funcs := (funcs example_unit)(''f'' := example_fn)\<rparr>"

definition example_finished_unit :: toplevel where
  "example_finished_unit = example_unit\<lparr>top_finished := True\<rparr>"

definition example_blob :: "string \<Rightarrow> pyobject" where
  "example_blob v = ObjectFormatObj \<lparr>obj_top = example_finished_unit, obj_version = v\<rparr>"

section \<open>The linker\<close>

definition generate_name :: "string \<Rightarrow> 'v \<Rightarrow> 'v scope \<Rightarrow> 'v scope" where
  "generate_name namehint val s = snd (uniq namehint (\<lambda>n. val) s)"

definition lookup_func :: "string \<Rightarrow> toplevel \<Rightarrow> error + pyval option" where
  "lookup_func nm t =
     bind_err (lookup nm (top_scope t))
       (\<lambda>func. case func of
                 None \<Rightarrow> Inr None
               | Some v \<Rightarrow> if is_visible_function v then Inr (Some v)
                           else Inl (AssertionError []))"

text \<open>
  \<open>ExternFunction.expect_signature(other)\<close>, with \<open>other\<close> a function of the unit
  \<open>t\<close>. When \<open>other\<close> is not finished the call goes to \<open>other.expect_signature(self)\<close>:
  for an \<open>IRFunction\<close> that defers the check (it appends the stub to its list of
  signatures to expect), for a stub it compares the other way round.
\<close>

fun extern_expect_signature ::
  "extern_function \<Rightarrow> pyval \<Rightarrow> toplevel \<Rightarrow> error + toplevel" where
  "extern_expect_signature e (ExternFunctionRef other) t =
     (if \<not> extern_finished other then
        (if ext_params other \<noteq> ext_params e then Inl (AssertionError [])
         else if ext_returns other \<noteq> ext_returns e then Inl (AssertionError [])
         else Inr t)
      else if ext_params e \<noteq> ext_params other then Inl (AssertionError [])
      else if ext_returns e \<noteq> ext_returns other then Inl (AssertionError [])
      else Inr t)"
| "extern_expect_signature e (IRFunctionRef m) t =
     (let f = funcs t m in
      if \<not> finished f then
        (if \<not> extern_finished e then Inl (AssertionError [])
         else Inr (t\<lparr>funcs := (funcs t)
                (m := f\<lparr>future_expect_sig :=
                          future_expect_sig f @ [(ext_params e, ext_returns e)]\<rparr>)\<rparr>))
      else if ext_params e \<noteq> params f then Inl (AssertionError [])
      else if ext_returns e \<noteq> returns f then Inl (AssertionError [])
      else Inr t)"
| "extern_expect_signature e _ t = Inl (AttributeError ''finished'')"

text \<open>
  Modelled from the spec: \<open>insn.query(arg_type)\<close> belongs to the instruction set; it
  yields the argument slots of the instruction that hold an entity of the given kind.
  \<open>apply_mapping\<close> replaces the value of each such slot that is a key of the mapping.
\<close>

definition map_arg :: "(pyval \<Rightarrow> bool) \<Rightarrow> (pyval \<times> pyval) list \<Rightarrow> pyval \<Rightarrow> pyval" where
  "map_arg is_kind mapping a =
     (if is_kind a then (case map_of mapping a of Some r \<Rightarrow> r | None \<Rightarrow> a) else a)"

definition apply_mapping ::
  "(pyval \<Rightarrow> bool) \<Rightarrow> (pyval \<times> pyval) list \<Rightarrow> insn list \<Rightarrow> insn list" where
  "apply_mapping is_kind mapping is =
     map (\<lambda>i. Insn (insn_class i) (map (map_arg is_kind mapping) (insn_args i)) (insn_value i)) is"

text \<open>\<open>block.apply_mapping\<close> for a block of a function of the unit.\<close>

fun block_apply_mapping ::
  "(pyval \<Rightarrow> bool) \<Rightarrow> (pyval \<times> pyval) list \<Rightarrow> pyval \<Rightarrow> toplevel \<Rightarrow> toplevel" where
  "block_apply_mapping is_kind mapping (BasicBlockRef fn n) t =
     (let f = funcs t fn; b = basic_blocks f n in
      t\<lparr>funcs := (funcs t)
           (fn := f\<lparr>basic_blocks := (basic_blocks f)
                     (n := b\<lparr>insns := apply_mapping is_kind mapping (insns b)\<rparr>)\<rparr>)\<rparr>)"
| "block_apply_mapping is_kind mapping (SuperBlockRef fn n) t =
     (let f = funcs t fn; b = super_blocks f n in
      t\<lparr>funcs := (funcs t)
           (fn := f\<lparr>super_blocks := (super_blocks f)
                     (n := b\<lparr>insns := apply_mapping is_kind mapping (insns b)\<rparr>)\<rparr>)\<rparr>)"
| "block_apply_mapping is_kind mapping _ t = t"

text \<open>
  The state of the first pass: the merged unit, the stubs deferred per name (a
  \<open>defaultdict(list)\<close>, in order of first use) and the blocks collected.
\<close>

record link_state =
  out :: toplevel
  externs :: "(string \<times> extern_function list) list"
  all_blocks :: "pyval list"

definition bucket_append :: "string \<Rightarrow> 'a \<Rightarrow> (string \<times> 'a list) list \<Rightarrow> (string \<times> 'a list) list" where
  "bucket_append k v d =
     AList.update k ((case map_of d k of None \<Rightarrow> [] | Some vs \<Rightarrow> vs) @ [v]) d"

text \<open>
  The loop over \<open>top.scope.items()\<close>. A genuine function keeps its name in the merged
  scope, and its state moves to the merged unit; the parent of its scope is set once the
  merged scope is complete (\<open>reparent\<close> below), since in the source it is a reference to
  the merged scope, not a copy.
\<close>

fun scan_items :: "toplevel \<Rightarrow> (string \<times> pyval) list \<Rightarrow> link_state \<Rightarrow> error + link_state" where
  "scan_items tp [] st = Inr st"
| "scan_items tp ((nm, var) # rest) st =
     (case var of
        ExternFunctionRef e \<Rightarrow>
          scan_items tp rest (st\<lparr>externs := bucket_append nm e (externs st)\<rparr>)
      | IRFunctionRef m \<Rightarrow>
          bind_err (store nm var (top_scope (out st)))
            (\<lambda>s. scan_items tp rest
                   (st\<lparr>out := (out st)\<lparr>top_scope := s,
                                        funcs := (funcs (out st))(m := funcs tp m)\<rparr>,
                       all_blocks := all_blocks st @ blocks (funcs tp m)\<rparr>))
      | _ \<Rightarrow>
          scan_items tp rest
            (st\<lparr>out := (out st)\<lparr>top_scope := generate_name nm var (top_scope (out st))\<rparr>\<rparr>))"

definition scan_top :: "toplevel \<Rightarrow> link_state \<Rightarrow> error + link_state" where
  "scan_top tp st =
     (if \<not> top_finished tp then Inl (AssertionError [])
      else scan_items tp (items (top_scope tp))
             (st\<lparr>out := (out st)\<lparr>top_preamble := top_preamble (out st) @ top_preamble tp,
                                  pragmas := pragmas (out st) @ pragmas tp\<rparr>\<rparr>))"

fun scan_tops :: "toplevel list \<Rightarrow> link_state \<Rightarrow> error + link_state" where
  "scan_tops [] st = Inr st"
| "scan_tops (tp # tps) st = bind_err (scan_top tp st) (scan_tops tps)"

text \<open>The inner loop of the second pass, over the stubs of one name.\<close>

fun check_externs ::
  "pyval \<Rightarrow> extern_function list \<Rightarrow> toplevel \<times> (pyval \<times> pyval) list
   \<Rightarrow> error + toplevel \<times> (pyval \<times> pyval) list" where
  "check_externs replacement [] (t, mapping) = Inr (t, mapping)"
| "check_externs replacement (e # es) (t, mapping) =
     bind_err (extern_expect_signature e replacement t)
       (\<lambda>t'. check_externs replacement es
               (t', if replacement \<noteq> ExternFunctionRef e
                    then AList.update (ExternFunctionRef e) replacement mapping
                    else mapping))"

text \<open>The second pass, over \<open>externs.items()\<close>.\<close>

fun resolve_externs ::
  "(string \<times> extern_function list) list \<Rightarrow> toplevel \<times> (pyval \<times> pyval) list
   \<Rightarrow> error + toplevel \<times> (pyval \<times> pyval) list" where
  "resolve_externs [] st = Inr st"
| "resolve_externs ((nm, externlist) # rest) (t, mapping) =
     (case externlist of
        [] \<Rightarrow> Inl IndexError
      | new_extern # others \<Rightarrow>
          bind_err (lookup_func nm t) (\<lambda>concrete.
          let replacement =
                (case concrete of Some c \<Rightarrow> c | None \<Rightarrow> ExternFunctionRef new_extern) in
          bind_err (check_externs replacement externlist (t, mapping)) (\<lambda>(t1, mapping1).
          bind_err
            (if concrete = None then
               bind_err (store nm (ExternFunctionRef new_extern) (top_scope t1))
                 (\<lambda>s. Inr (t1\<lparr>top_scope := s\<rparr>))
             else Inr t1)
            (\<lambda>t2. resolve_externs rest (t2, mapping1)))))"

definition reparent :: "toplevel \<Rightarrow> toplevel" where
  "reparent t =
     t\<lparr>funcs := (\<lambda>m. if IRFunctionRef m \<in> set (scope_values (top_scope t)) then
                        (funcs t m)\<lparr>fscope :=
                           Scope (items (fscope (funcs t m))) (inverse_dict (fscope (funcs t m)))
                                 (Some (top_scope t))\<rparr>
                      else funcs t m)\<rparr>"

definition linker :: "toplevel list \<Rightarrow> error + toplevel" where
  "linker tops =
     (if tops = [] then Inl (AssertionError [])
      else if length tops = 1 then Inr (hd tops)
      else
        bind_err (scan_tops tops \<lparr>out = TopLevel_init, externs = [], all_blocks = []\<rparr>)
          (\<lambda>st.
        bind_err (resolve_externs (externs st) (out st, []))
          (\<lambda>(out1, extern_mapping).
             let out2 = (if extern_mapping \<noteq> [] then
                           fold (block_apply_mapping is_extern_function extern_mapping)
                             (all_blocks st) out1
                         else out1)
             in top_end (reparent out2))))"

section \<open>Notions used in the statements about linking\<close>

text \<open>
  The scope entries of all units in scan order; the stubs and the genuine definitions
  they hold under a name; and the resolution of a reference the linker is to arrive at: a
  reference to a stub becomes the genuine definition of the stub's name if there is
  one, else the first stub of that name.
\<close>

definition all_items :: "toplevel list \<Rightarrow> (string \<times> pyval) list" where
  "all_items tops = concat (map (\<lambda>tp. items (top_scope tp)) tops)"

fun stubs_in :: "(string \<times> pyval) list \<Rightarrow> string \<Rightarrow> extern_function list" where
  "stubs_in [] n = []"
| "stubs_in ((k, ExternFunctionRef e) # rest) n =
     (if k = n then e # stubs_in rest n else stubs_in rest n)"
| "stubs_in (_ # rest) n = stubs_in rest n"

fun genuine_in :: "(string \<times> pyval) list \<Rightarrow> string \<Rightarrow> string list" where
  "genuine_in [] n = []"
| "genuine_in ((k, IRFunctionRef m) # rest) n =
     (if k = n then m # genuine_in rest n else genuine_in rest n)"
| "genuine_in (_ # rest) n = genuine_in rest n"

definition resolved :: "toplevel list \<Rightarrow> string \<Rightarrow> pyval" where
  "resolved tops n =
     (case genuine_in (all_items tops) n of
        m # ms \<Rightarrow> IRFunctionRef m
      | [] \<Rightarrow> ExternFunctionRef (hd (stubs_in (all_items tops) n)))"

definition resolve_ref :: "toplevel list \<Rightarrow> pyval \<Rightarrow> pyval" where
  "resolve_ref tops a =
     (case a of
        ExternFunctionRef e \<Rightarrow>
          (if e \<in> set (stubs_in (all_items tops) (gname e)) then resolved tops (gname e) else a)
      | _ \<Rightarrow> a)"

text \<open>
  A unit as the front end builds it: a function is stored under its own name, a stub
  under the global name it carries.
\<close>

fun wf_entry :: "string \<times> pyval \<Rightarrow> bool" where
  "wf_entry (n, IRFunctionRef m) = (n = m)"
| "wf_entry (n, ExternFunctionRef e) = (gname e = n)"
| "wf_entry _ = True"

definition wf_unit :: "toplevel \<Rightarrow> bool" where
  "wf_unit tp = list_all wf_entry (items (top_scope tp))"

text \<open>
  The names of the genuine definitions among scope entries, in order, and an instruction
  with every argument resolved. The user blocks of the functions of a unit are plain
  blocks when \<open>SuperBlock\<close> is the class of entry and exit blocks only, as it is for
  the blocks \<open>IRFunction\<close> creates.
\<close>

fun genuine_names :: "(string \<times> pyval) list \<Rightarrow> string list" where
  "genuine_names [] = []"
| "genuine_names ((k, IRFunctionRef m) # rest) = m # genuine_names rest"
| "genuine_names (_ # rest) = genuine_names rest"

definition resolve_insn :: "toplevel list \<Rightarrow> insn \<Rightarrow> insn" where
  "resolve_insn tops i = Insn (insn_class i) (map (resolve_ref tops) (insn_args i)) (insn_value i)"

definition plain_user_blocks :: "toplevel \<Rightarrow> bool" where
  "plain_user_blocks tp =
     list_all (\<lambda>m. list_all is_basic (blocks (funcs tp m))) (genuine_names (items (top_scope tp)))"

text \<open>
  For the proofs: the stubs deferred under a name, the visible function a scope binds a
  name to, and the replacement the second pass chooses for a name.
\<close>

definition bucket :: "(string \<times> 'a list) list \<Rightarrow> string \<Rightarrow> 'a list" where
  "bucket d n = (case map_of d n of None \<Rightarrow> [] | Some vs \<Rightarrow> vs)"

definition visible_binding :: "pyval scope \<Rightarrow> string \<Rightarrow> pyval option" where
  "visible_binding s n =
     (case map_of (items s) n of
        Some v \<Rightarrow> if is_visible_function v then Some v else None
      | None \<Rightarrow> None)"

definition replacement_for ::
  "pyval scope \<Rightarrow> (string \<times> extern_function list) list \<Rightarrow> string \<Rightarrow> pyval" where
  "replacement_for s d n =
     (case visible_binding s n of
        Some c \<Rightarrow> c
      | None \<Rightarrow> ExternFunctionRef (hd (bucket d n)))"

section \<open>Example units for linking\<close>

text \<open>
  A finished function whose single user block invokes the given callees and returns.
  Unit \<open>a\<close> defines \<open>f\<close>, which calls the extern \<open>g\<close>; unit \<open>b\<close> defines
  \<open>h\<close>, which calls the externs \<open>f\<close> and \<open>g\<close>; unit \<open>c\<close> declares \<open>g\<close>
  with another return type. Unit \<open>b\<close> may also tag the extern \<open>f\<close> as a setup
  function, with a \<open>setupfn\<close> instruction in its preamble.
\<close>

definition example_caller :: "string \<Rightarrow> pyval list \<Rightarrow> irfunction" where
  "example_caller nm callees =
     (let (b, f) = create_block ''entry'' (IRFunction_init nm (Scope [] [] None)) in
      f\<lparr>finished := True,
        basic_blocks := (basic_blocks f)
          (''entry'' := (basic_blocks f ''entry'')
             \<lparr>insns := map (\<lambda>c. Insn (OtherInsn ''invoke'') [c] None) callees
                       @ [Insn Branch [exitblock f] None]\<rparr>)\<rparr>)"

definition stub_f :: extern_function where
  "stub_f = \<lparr>ext_id = 1, gname = ''f'', ext_params = [], ext_returns = []\<rparr>"

definition stub_g_a :: extern_function where
  "stub_g_a = \<lparr>ext_id = 2, gname = ''g'', ext_params = [(i32, ''byval'')], ext_returns = [i32]\<rparr>"

definition stub_g_b :: extern_function where
  "stub_g_b = \<lparr>ext_id = 3, gname = ''g'', ext_params = [(i32, ''byval'')], ext_returns = [i32]\<rparr>"

definition unit_a :: toplevel where
  "unit_a =
     TopLevel_init
       \<lparr>top_scope := scope_setitem ''g'' (ExternFunctionRef stub_g_a)
                       (scope_setitem ''f'' (IRFunctionRef ''f'') (top_scope TopLevel_init)),
        top_finished := True,
        funcs := (funcs TopLevel_init)
           (''f'' := example_caller ''f'' [ExternFunctionRef stub_g_a])\<rparr>"

definition unit_b :: toplevel where
  "unit_b =
     TopLevel_init
       \<lparr>top_scope := scope_setitem ''g'' (ExternFunctionRef stub_g_b)
                       (scope_setitem ''f'' (ExternFunctionRef stub_f)
                         (scope_setitem ''h'' (IRFunctionRef ''h'') (top_scope TopLevel_init))),
        top_finished := True,
        funcs := (funcs TopLevel_init)
           (''h'' := example_caller ''h''
                       [ExternFunctionRef stub_f, ExternFunctionRef stub_g_b])\<rparr>"

definition unit_b_setup :: toplevel where
  "unit_b_setup =
     unit_b\<lparr>top_preamble := [Insn (OtherInsn ''setupfn'') [ExternFunctionRef stub_f] None]\<rparr>"

definition stub_g_c :: extern_function where
  "stub_g_c = \<lparr>ext_id = 4, gname = ''g'', ext_params = [(i32, ''byval'')], ext_returns = [q10]\<rparr>"

definition unit_c :: toplevel where
  "unit_c =
     TopLevel_init
       \<lparr>top_scope := scope_setitem ''g'' (ExternFunctionRef stub_g_c) (top_scope TopLevel_init),
        top_finished := True\<rparr>"

section \<open>Inlining\<close>

text \<open>
  What the core needs to know of an instruction belongs to the instruction set: whether
  it is a terminator, and per class whether it is preamble-safe, copyable on inlining
  and a constructor, its \<open>insn_name\<close>, and what a constructor builds (given the
  identity of the new object). These are parameters of the model.
\<close>

record insn_api =
  terminator :: "insn \<Rightarrow> bool"
  preamble_safe :: "insn_class \<Rightarrow> bool"
  inline_copyable :: "insn_class \<Rightarrow> bool"
  is_constructor :: "insn_class \<Rightarrow> bool"
  construct :: "insn \<Rightarrow> nat \<Rightarrow> pyval"
  insn_name :: "insn_class \<Rightarrow> string"

text \<open>
  Modelled from the spec: activation may construct a new entity and return it; a
  constructor instruction builds its entity when it is added and remembers it as
  \<open>_value\<close>. The result is the returned entity, the instruction as it is stored, and the
  identity the next new object gets.
\<close>

definition activate :: "insn_api \<Rightarrow> insn \<Rightarrow> nat \<Rightarrow> pyval option \<times> insn \<times> nat" where
  "activate api i oid =
     (if is_constructor api (insn_class i) then
        (let v = construct api i oid in
         (Some v, Insn (insn_class i) (insn_args i) (Some v), Suc oid))
      else (None, i, oid))"

text \<open>
  Modelled from the spec: \<open>copy_with_changes\<close> clones the instruction with the
  substitution map applied to its operands.
\<close>

definition copy_with_changes :: "(pyval \<times> pyval) list \<Rightarrow> insn \<Rightarrow> insn" where
  "copy_with_changes mapping i =
     Insn (insn_class i)
       (map (\<lambda>a. case map_of mapping a of Some r \<Rightarrow> r | None \<Rightarrow> a) (insn_args i)) None"

text \<open>
  An instruction sequence of a function: its preamble or one of its blocks; and the
  \<open>with_name\<close> argument of \<open>add\<close>: \<open>False\<close>, \<open>True\<close> or a string.
\<close>

datatype seq_ref = PreambleSeq | BlockSeq pyval

datatype with_name = NoName | AutoName | GivenName string

fun seq_validate :: "insn_api \<Rightarrow> seq_ref \<Rightarrow> irfunction \<Rightarrow> insn \<Rightarrow> error + insn" where
  "seq_validate api PreambleSeq f i =
     (if preamble_safe api (insn_class i) then Inr i else Inl (AssertionError []))"
| "seq_validate api (BlockSeq (BasicBlockRef fn n)) f i =
     validate_insn (terminator api) (exitblock f) (basic_blocks f n) i"
| "seq_validate api (BlockSeq (SuperBlockRef fn n)) f i =
     validate_insn (terminator api) (exitblock f) (super_blocks f n) i"
| "seq_validate api (BlockSeq _) f i = Inl (AttributeError ''validate_insn'')"

fun seq_append :: "seq_ref \<Rightarrow> insn \<Rightarrow> irfunction \<Rightarrow> irfunction" where
  "seq_append PreambleSeq i f = f\<lparr>preamble := preamble f @ [i]\<rparr>"
| "seq_append (BlockSeq (BasicBlockRef fn n)) i f =
     f\<lparr>basic_blocks := (basic_blocks f)
          (n := (basic_blocks f n)\<lparr>insns := insns (basic_blocks f n) @ [i]\<rparr>)\<rparr>"
| "seq_append (BlockSeq (SuperBlockRef fn n)) i f =
     f\<lparr>super_blocks := (super_blocks f)
          (n := (super_blocks f n)\<lparr>insns := insns (super_blocks f n) @ [i]\<rparr>)\<rparr>"
| "seq_append (BlockSeq _) i f = f"

text \<open>
  \<open>InstructionSeq.add(insn, with_name, namehint)\<close> on a sequence of the function \<open>f\<close>,
  which is the holder: validate, activate, append, and when a name is asked for, store
  the entity the activation returned.
\<close>

definition seq_add ::
  "insn_api \<Rightarrow> seq_ref \<Rightarrow> insn \<Rightarrow> with_name \<Rightarrow> string \<Rightarrow> irfunction \<times> nat
   \<Rightarrow> error + pyval option \<times> irfunction \<times> nat" where
  "seq_add api sq i wn namehint st =
     (case st of (f, oid) \<Rightarrow>
        bind_err (seq_validate api sq f i) (\<lambda>i1.
          case activate api i1 oid of (ret, i2, oid') \<Rightarrow>
            let f1 = seq_append sq i2 f in
            (case wn of
               NoName \<Rightarrow> Inr (None, f1, oid')
             | _ \<Rightarrow>
               (case ret of
                  None \<Rightarrow> Inl (AssertionError [])
                | Some r \<Rightarrow>
                    let nm = (case wn of
                                GivenName s \<Rightarrow> s
                              | _ \<Rightarrow> uniq_name (if namehint = [] then insn_name api (insn_class i2)
                                                 else namehint) (fscope f1))
                    in bind_err (store nm r (fscope f1))
                         (\<lambda>s. Inr (Some r, f1\<lparr>fscope := s\<rparr>, oid'))))))"

fun seq_add_all ::
  "insn_api \<Rightarrow> seq_ref \<Rightarrow> insn list \<Rightarrow> irfunction \<times> nat \<Rightarrow> error + irfunction \<times> nat" where
  "seq_add_all api sq [] st = Inr st"
| "seq_add_all api sq (i # is) st =
     bind_err (seq_add api sq i NoName [] st)
       (\<lambda>(ret, f, oid). seq_add_all api sq is (f, oid))"

definition create_var ::
  "insn_api \<Rightarrow> string \<Rightarrow> vartype \<Rightarrow> irfunction \<times> nat \<Rightarrow> error + pyval \<times> irfunction \<times> nat" where
  "create_var api namehint vt st =
     bind_err (seq_add api PreambleSeq (Insn DefineVariable [TypeVal vt] None) AutoName namehint st)
       (\<lambda>(ret, f, oid). case ret of
                           Some v \<Rightarrow> Inr (v, f, oid)
                         | None \<Rightarrow> Inl (AssertionError []))"

text \<open>\<open>validate_args\<close>; a missing return destination is \<open>None\<close>.\<close>

fun validate_arg :: "vartype \<times> string \<Rightarrow> pyval \<Rightarrow> error + unit" where
  "validate_arg (ptype, ppass) (IntVal n) =
     (if ptype = i32 then Inr () else Inl (AssertionError ''Literal int on non i32''))"
| "validate_arg (ptype, ppass) (FloatVal m e) =
     (if ptype = q10 then Inr () else Inl (AssertionError ''Literal float on non q10''))"
| "validate_arg (ptype, ppass) argval =
     (if \<not> is_variable argval then Inl (AssertionError ''Arg must be variable'')
      else if var_type argval \<noteq> ptype then Inl (AssertionError ''Arg type mismatch'')
      else Inr ())"

fun validate_retvar :: "vartype \<Rightarrow> pyval \<Rightarrow> error + unit" where
  "validate_retvar rtype NoneVal = Inr ()"
| "validate_retvar rtype rdest =
     (if \<not> is_variable rdest then Inl (AssertionError ''Retvar must be a var'')
      else if var_type rdest \<noteq> rtype then Inl (AssertionError ''Retvar type mismatch'')
      else Inr ())"

fun validate_all :: "('a \<Rightarrow> 'b \<Rightarrow> error + unit) \<Rightarrow> ('a \<times> 'b) list \<Rightarrow> error + unit" where
  "validate_all check [] = Inr ()"
| "validate_all check ((x, y) # rest) = bind_err (check x y) (\<lambda>u. validate_all check rest)"

definition validate_args ::
  "irfunction \<Rightarrow> pyval list option \<Rightarrow> pyval list option \<Rightarrow> error + unit" where
  "validate_args f args retvars =
     (if \<not> finished f then Inl (AssertionError [])
      else
        bind_err
          (if params f \<noteq> [] then
             (case args of
                None \<Rightarrow> Inl (AssertionError ''Missing args'')
              | Some as \<Rightarrow>
                  if length as \<noteq> length (params f) then
                    Inl (AssertionError ''Incorrect number of args'')
                  else validate_all validate_arg (zip (params f) as))
           else if args \<noteq> None then Inl (AssertionError ''Args when no params'')
           else Inr ())
          (\<lambda>u.
             if returns f \<noteq> [] then
               (case retvars of
                  None \<Rightarrow> Inl (AssertionError ''Missing return variables'')
                | Some rs \<Rightarrow>
                    if length rs \<noteq> length (returns f) then
                      Inl (AssertionError ''Incorrect num of retvars'')
                    else validate_all validate_retvar (zip (returns f) rs))
             else if retvars \<noteq> None then Inl (AssertionError ''Retvar when no returns'')
             else Inr ()))"

text \<open>The state of \<open>inline_into\<close> while it walks the scope of the inlined function.\<close>

record inline_state =
  target :: irfunction
  next_oid :: nat
  scope_mapping :: "(pyval \<times> pyval) list"
  block_mapping :: "(pyval \<times> pyval) list"
  argiter :: "pyval list"
  retiter :: "pyval list"
  entry_insns :: "insn list"

fun is_literal :: "pyval \<Rightarrow> bool" where
  "is_literal (IntVal n) = True"
| "is_literal (FloatVal m e) = True"
| "is_literal _ = False"

definition attr_type :: "pyval \<Rightarrow> error + vartype" where
  "attr_type v = (if is_variable v then Inr (var_type v) else Inl (AttributeError ''type''))"

fun block_is_function :: "irfunction \<Rightarrow> pyval \<Rightarrow> bool" where
  "block_is_function f (BasicBlockRef fn n) = is_function (basic_blocks f n)"
| "block_is_function f (SuperBlockRef fn n) = is_function (super_blocks f n)"
| "block_is_function f _ = False"

fun block_defined :: "irfunction \<Rightarrow> pyval \<Rightarrow> bool" where
  "block_defined f (BasicBlockRef fn n) = defined (basic_blocks f n)"
| "block_defined f (SuperBlockRef fn n) = defined (super_blocks f n)"
| "block_defined f _ = False"

text \<open>The loop over \<open>self.scope.items()\<close>.\<close>

fun bind_loop ::
  "insn_api \<Rightarrow> irfunction \<Rightarrow> (string \<times> pyval) list \<Rightarrow> inline_state \<Rightarrow> error + inline_state" where
  "bind_loop api self [] st = Inr st"
| "bind_loop api self ((nm, var) # rest) st =
     (if is_block var then
        (let (new_block, f1) = create_block (block_name var) (target st);
             n = block_name new_block;
             f2 = f1\<lparr>basic_blocks := (basic_blocks f1)
                      (n := (basic_blocks f1 n)
                         \<lparr>is_function := block_is_function self var,
                          defined := block_defined self var\<rparr>)\<rparr>
         in bind_loop api self rest
              (st\<lparr>target := f2,
                  scope_mapping := AList.update var new_block (scope_mapping st),
                  block_mapping := AList.update var new_block (block_mapping st)\<rparr>))
      else
        (case var of
           ParameterVariable i t passtype \<Rightarrow>
             (case argiter st of
                [] \<Rightarrow> Inl StopIteration
              | arg_var # args' \<Rightarrow>
                  if is_literal arg_var then
                    (if passtype \<noteq> ''byval'' then Inl (AssertionError [])
                     else bind_loop api self rest
                            (st\<lparr>argiter := args',
                                scope_mapping := AList.update var arg_var (scope_mapping st)\<rparr>))
                  else if passtype = ''byval'' then
                    bind_err (name_for arg_var (fscope (target st))) (\<lambda>name.
                    bind_err (attr_type arg_var) (\<lambda>ty.
                    bind_err (create_var api (name @ ''_copy'') ty (target st, next_oid st))
                      (\<lambda>(copy_var, f1, oid1).
                         bind_loop api self rest
                           (st\<lparr>target := f1, next_oid := oid1, argiter := args',
                               entry_insns :=
                                 entry_insns st @ [Insn SetScore [copy_var, arg_var] None],
                               scope_mapping :=
                                 AList.update var copy_var (scope_mapping st)\<rparr>))))
                  else bind_loop api self rest
                         (st\<lparr>argiter := args',
                             scope_mapping := AList.update var arg_var (scope_mapping st)\<rparr>))
         | ReturnVariable i t \<Rightarrow>
             (case retiter st of
                [] \<Rightarrow> Inl StopIteration
              | r # rs \<Rightarrow>
                  bind_loop api self rest
                    (st\<lparr>retiter := rs,
                        scope_mapping := AList.update var r (scope_mapping st)\<rparr>))
         | _ \<Rightarrow> bind_loop api self rest st))"

text \<open>
  \<open>_inline_seq\<close>: the instructions of a sequence of \<open>self\<close>, copied into a sequence of
  the target. \<open>declare()\<close> registers usage and does not touch the sequences.
\<close>

fun inline_seq ::
  "insn_api \<Rightarrow> irfunction \<Rightarrow> insn list \<Rightarrow> seq_ref \<Rightarrow> irfunction \<times> nat \<times> (pyval \<times> pyval) list
   \<Rightarrow> error + irfunction \<times> nat \<times> (pyval \<times> pyval) list" where
  "inline_seq api self [] to_seq st = Inr st"
| "inline_seq api self (i # is) to_seq (f, oid, mapping) =
     (if \<not> inline_copyable api (insn_class i) then inline_seq api self is to_seq (f, oid, mapping)
      else
        (let new_insn = copy_with_changes mapping i in
         if is_constructor api (insn_class i) then
           (case insn_value i of
              None \<Rightarrow> Inl ValueKeyError
            | Some v \<Rightarrow>
                bind_err (name_for v (fscope self)) (\<lambda>name.
                bind_err (seq_add api to_seq new_insn AutoName name (f, oid))
                  (\<lambda>(ret, f1, oid1).
                     case ret of
                       None \<Rightarrow> Inl (AssertionError [])
                     | Some r \<Rightarrow>
                         inline_seq api self is to_seq
                           (f1, oid1, AList.update v r mapping))))
         else
           bind_err (seq_add api to_seq new_insn NoName [] (f, oid))
             (\<lambda>(ret, f1, oid1). inline_seq api self is to_seq (f1, oid1, mapping))))"

fun inline_blocks ::
  "insn_api \<Rightarrow> irfunction \<Rightarrow> (pyval \<times> pyval) list \<Rightarrow> irfunction \<times> nat \<times> (pyval \<times> pyval) list
   \<Rightarrow> error + irfunction \<times> nat \<times> (pyval \<times> pyval) list" where
  "inline_blocks api self [] st = Inr st"
| "inline_blocks api self ((old_block, new_block) # rest) st =
     bind_err (inline_seq api self (block_insns self old_block) (BlockSeq new_block) st)
       (inline_blocks api self rest)"

text \<open>
  \<open>inline_into(other, args, retvars)\<close>. The result is the mapped entry and exit blocks,
  the target afterwards, the identity for the next new object and the substitution map.
\<close>

definition inline_into ::
  "insn_api \<Rightarrow> irfunction \<Rightarrow> irfunction \<Rightarrow> pyval list option \<Rightarrow> pyval list option \<Rightarrow> nat
   \<Rightarrow> error + pyval \<times> pyval \<times> irfunction \<times> nat \<times> (pyval \<times> pyval) list" where
  "inline_into api self other args retvars oid =
     bind_err (validate_args self args retvars) (\<lambda>u.
     if varsfinalized self then Inl (AssertionError [])
     else if varsfinalized other then Inl (AssertionError [])
     else
       bind_err
         (bind_loop api self (items (fscope self))
            \<lparr>target = other, next_oid = oid, scope_mapping = [], block_mapping = [],
             argiter = (case args of None \<Rightarrow> [] | Some as \<Rightarrow> as),
             retiter = (case retvars of None \<Rightarrow> [] | Some rs \<Rightarrow> rs),
             entry_insns = []\<rparr>) (\<lambda>st.
       if argiter st \<noteq> [] then Inl (AssertionError [])
       else if retiter st \<noteq> [] then Inl (AssertionError [])
       else
         bind_err
           (inline_seq api self (preamble self) PreambleSeq
              (target st, next_oid st, scope_mapping st)) (\<lambda>(f1, oid1, mapping1).
         (case blocks self of
            [] \<Rightarrow> Inl IndexError
          | b0 # bs \<Rightarrow>
              (case map_of (block_mapping st) b0 of
                 None \<Rightarrow> Inl ValueKeyError
               | Some entry_block \<Rightarrow>
                   bind_err (seq_add_all api (BlockSeq entry_block) (entry_insns st) (f1, oid1))
                     (\<lambda>(f2, oid2).
                   bind_err (inline_blocks api self (block_mapping st) (f2, oid2, mapping1))
                     (\<lambda>(f3, oid3, mapping3).
                   (case map_of (block_mapping st) (exitblock self) of
                      None \<Rightarrow> Inl ValueKeyError
                    | Some exit_block \<Rightarrow>
                        if \<not> list_all (\<lambda>i. insn_class i = RunDeferredCallback)
                                 (post_exit_insns self)
                        then Inl (AssertionError [])
                        else Inr (entry_block, exit_block, f3, oid3, mapping3)))))))))"

section \<open>Notions used in the statements about inlining\<close>

text \<open>
  What each supplied argument is bound to, in order: a literal to itself, a variable to
  the entity the copy's \<open>DefineVariable\<close> constructs; the copy instructions, one for
  each argument that is not a literal; and an instruction without its \<open>_value\<close>.
\<close>

fun arg_targets :: "insn_api \<Rightarrow> nat \<Rightarrow> pyval list \<Rightarrow> pyval list" where
  "arg_targets api oid [] = []"
| "arg_targets api oid (a # as) =
     (if is_literal a then a # arg_targets api oid as
      else construct api (Insn DefineVariable [TypeVal (var_type a)] None) oid
           # arg_targets api (Suc oid) as)"

definition copy_insns :: "insn_api \<Rightarrow> nat \<Rightarrow> pyval list \<Rightarrow> insn list" where
  "copy_insns api oid as =
     map (\<lambda>(a, t). Insn SetScore [t, a] None)
       (filter (\<lambda>(a, t). \<not> is_literal a) (zip as (arg_targets api oid as)))"

definition insn_sig :: "insn \<Rightarrow> insn_class \<times> pyval list" where
  "insn_sig i = (insn_class i, insn_args i)"

section \<open>Properties of Scope\<close>

lemma scope_contains_local:
  "contains_no_parent key s \<Longrightarrow> scope_contains key s"
  by (cases s) (simp add: contains_no_parent_def)

lemma scope_contains_getitem:
  "scope_contains key s \<Longrightarrow> \<exists>v. scope_getitem key s = Inr v"
proof (induction key s rule: scope_contains.induct)
  case (1 key its inv par)
  show ?case
  proof (cases "map_of its key")
    case (Some v)
    then show ?thesis by simp
  next
    case None
    then have "key \<notin> set (map fst its)"
      by (simp add: map_of_eq_None_iff)
    with 1 None show ?thesis
      by (cases par) auto
  qed
qed

lemma scope_getitem_parent:
  "\<not> contains_no_parent key s \<Longrightarrow> parent s = Some p \<Longrightarrow>
   scope_getitem key s = scope_getitem key p"
proof (cases s)
  case (Scope its ivd par)
  assume "\<not> contains_no_parent key s" and p: "parent s = Some p"
  with Scope have "map_of its key = None"
    by (simp add: contains_no_parent_def map_of_eq_None_iff)
  with Scope p show ?thesis by simp
qed

lemma scope_contains_parent:
  "\<not> contains_no_parent key s \<Longrightarrow> parent s = Some p \<Longrightarrow>
   scope_contains key s = scope_contains key p"
  by (cases s) (simp add: contains_no_parent_def)

lemma scope_setitem_local:
  "contains_no_parent key (scope_setitem key val s)"
  by (simp add: contains_no_parent_def scope_setitem_def dom_update)

lemma scope_setitem_getitem:
  "scope_getitem key (scope_setitem key val s) = Inr val"
  by (simp add: scope_setitem_def update_conv')

text \<open>
  C9. If a name is absent from a scope's local entries but present in its parent chain,
  \<open>get_or_create\<close> returns the value the chain holds, does not invoke the factory and
  leaves the scope as it was. The factory is invoked exactly when the name is absent from
  the whole chain (and not otherwise), and its result is then stored locally.
\<close>

theorem get_or_create_chain:
  fixes s :: "'v scope" and factory :: "string \<Rightarrow> 'v"
  shows
    "(\<not> contains_no_parent n s \<and> parent s = Some p \<and> scope_contains n p \<longrightarrow>
        (\<exists>v. scope_getitem n p = Inr v \<and> get_or_create n factory s = Inr (v, s, [])))
     \<and> (scope_contains n s \<longrightarrow> (\<exists>v. get_or_create n factory s = Inr (v, s, [])))
     \<and> (\<not> scope_contains n s \<longrightarrow>
          get_or_create n factory s = Inr (factory n, scope_setitem n (factory n) s, [n])
          \<and> contains_no_parent n (scope_setitem n (factory n) s)
          \<and> scope_getitem n (scope_setitem n (factory n) s) = Inr (factory n)
          \<and> parent (scope_setitem n (factory n) s) = parent s)"
proof (intro conjI impI)
  assume a: "\<not> contains_no_parent n s \<and> parent s = Some p \<and> scope_contains n p"
  then have c: "scope_contains n s"
    using scope_contains_parent by blast
  from a obtain v where v: "scope_getitem n p = Inr v"
    using scope_contains_getitem by blast
  with a have "scope_getitem n s = Inr v"
    using scope_getitem_parent by metis
  with c v show "\<exists>v. scope_getitem n p = Inr v \<and> get_or_create n factory s = Inr (v, s, [])"
    by (simp add: get_or_create_def)
next
  assume c: "scope_contains n s"
  then obtain v where "scope_getitem n s = Inr v"
    using scope_contains_getitem by blast
  with c show "\<exists>v. get_or_create n factory s = Inr (v, s, [])"
    by (simp add: get_or_create_def)
next
  assume "\<not> scope_contains n s"
  then show "get_or_create n factory s = Inr (factory n, scope_setitem n (factory n) s, [n])"
    by (simp add: get_or_create_def Let_def)
next
  show "contains_no_parent n (scope_setitem n (factory n) s)"
    by (rule scope_setitem_local)
next
  show "scope_getitem n (scope_setitem n (factory n) s) = Inr (factory n)"
    by (rule scope_setitem_getitem)
next
  show "parent (scope_setitem n (factory n) s) = parent s"
    by (simp add: scope_setitem_def)
qed

theorem get_or_create_chain_witness:
  "get_or_create ''f'' (\<lambda>n. (0::nat)) (Scope [(''g'', 1)] [(1, ''g'')] (Some (Scope [(''f'', 7)] [(7, ''f'')] None)))
     = Inr (7, Scope [(''g'', 1)] [(1, ''g'')] (Some (Scope [(''f'', 7)] [(7, ''f'')] None)), [])
   \<and> get_or_create ''h'' (\<lambda>n. (0::nat)) (Scope [(''g'', 1)] [(1, ''g'')] (Some (Scope [(''f'', 7)] [(7, ''f'')] None)))
     = Inr (0, Scope [(''g'', 1), (''h'', 0)] [(1, ''g''), (0, ''h'')] (Some (Scope [(''f'', 7)] [(7, ''f'')] None)), [''h''])"
proof -
  let ?p = "Scope [(''f'', 7::nat)] [(7, ''f'')] None"
  let ?s = "Scope [(''g'', 1::nat)] [(1, ''g'')] (Some ?p)"
  have h1: "\<not> contains_no_parent ''f'' ?s \<and> parent ?s = Some ?p \<and> scope_contains ''f'' ?p"
    by (simp add: contains_no_parent_def)
  have h2: "\<not> scope_contains ''h'' ?s"
    by simp
  from get_or_create_chain [of "''f''" ?s ?p "\<lambda>n. 0"] h1
  have "\<exists>v. scope_getitem ''f'' ?p = Inr v \<and> get_or_create ''f'' (\<lambda>n. 0) ?s = Inr (v, ?s, [])"
    by blast
  then have a: "get_or_create ''f'' (\<lambda>n. 0) ?s = Inr (7, ?s, [])"
    by simp
  from get_or_create_chain [of "''h''" ?s ?p "\<lambda>n. 0"] h2
  have "get_or_create ''h'' (\<lambda>n. 0) ?s = Inr (0, scope_setitem ''h'' 0 ?s, [''h''])"
    by blast
  then have b: "get_or_create ''h'' (\<lambda>n. 0) ?s
      = Inr (0, Scope [(''g'', 1), (''h'', 0)] [(1, ''g''), (0, ''h'')] (Some ?p), [''h''])"
    by (simp add: scope_setitem_def)
  from a b show ?thesis by simp
qed

section \<open>Usage counting of a SuperBlock\<close>

lemma super_calls_pinned:
  "CallSuperclear \<notin> set cs \<Longrightarrow> \<not> clear b \<Longrightarrow> super_calls cs b = b"
  unfolding super_calls_def
proof (induction cs)
  case Nil
  then show ?case by simp
next
  case (Cons c cs)
  then show ?case
    by (cases c) (simp_all add: super_usage_def super_reset_def)
qed

lemma super_calls_cleared:
  "clear b \<Longrightarrow> CallReset \<notin> set cs \<Longrightarrow>
   clear (super_calls cs b) \<and> is_entry (super_calls cs b) = is_entry b
   \<and> use (super_calls cs b) = use b + count_list cs CallUsage"
  unfolding super_calls_def
proof (induction cs arbitrary: b)
  case Nil
  then show ?case by simp
next
  case (Cons c cs)
  then show ?case
    by (cases c) (simp_all add: super_usage_def superclear_def usage_def)
qed

lemma super_calls_append:
  "super_calls (xs @ ys) b = super_calls ys (super_calls xs b)"
  by (simp add: super_calls_def)

text \<open>
  C7, amended. Starting from a freshly constructed SuperBlock (entry or exit), as long as
  \<open>superclear()\<close> has not been called \<open>use_count()\<close> is 2 whatever calls of
  \<open>usage()\<close> or \<open>reset()\<close> were made. After \<open>superclear()\<close>, and with no
  \<open>reset()\<close> since, \<open>use_count()\<close> of the exit SuperBlock is the number of
  \<open>usage()\<close> calls made since, and that of the entry SuperBlock is one more than that
  number.
\<close>

theorem super_use_count_calls:
  assumes "CallSuperclear \<notin> set pre" and "CallReset \<notin> set post"
    and "b = (SuperBlock_init nm fn)\<lparr>is_entry := e\<rparr>"
  shows "super_use_count (super_calls pre b) = 2
       \<and> super_use_count (super_calls (pre @ CallSuperclear # post) b)
           = (if e then 1 else 0) + count_list post CallUsage"
proof -
  have nc: "\<not> clear b" using assms(3) by (simp add: SuperBlock_init_def)
  have p: "super_calls pre b = b"
    using assms(1) nc by (rule super_calls_pinned)
  have "super_calls (pre @ CallSuperclear # post) b = super_calls post (superclear b)"
    using p by (simp add: super_calls_append) (simp add: super_calls_def)
  moreover have "clear (superclear b)" by (simp add: superclear_def)
  ultimately have "clear (super_calls (pre @ CallSuperclear # post) b)
      \<and> is_entry (super_calls (pre @ CallSuperclear # post) b) = is_entry (superclear b)
      \<and> use (super_calls (pre @ CallSuperclear # post) b) = use (superclear b) + count_list post CallUsage"
    using super_calls_cleared [of "superclear b" post] assms(2) by simp
  moreover have "is_entry (superclear b) = e" "use (superclear b) = 0"
    using assms(3) by (simp_all add: superclear_def SuperBlock_init_def)
  ultimately show ?thesis
    using p nc by (simp add: super_use_count_def use_count_def)
qed

theorem super_use_count_calls_witness:
  "super_use_count (super_calls [CallUsage, CallUsage] ((SuperBlock_init ''0entry'' ''f'')\<lparr>is_entry := True\<rparr>)) = 2
   \<and> super_use_count (super_calls ([CallUsage, CallUsage] @ CallSuperclear # [CallUsage, CallUsage, CallUsage])
        ((SuperBlock_init ''0entry'' ''f'')\<lparr>is_entry := True\<rparr>)) = 4"
  using super_use_count_calls [where pre = "[CallUsage, CallUsage]"
      and post = "[CallUsage, CallUsage, CallUsage]" and nm = "''0entry''" and fn = "''f''"
      and e = True and b = "(SuperBlock_init ''0entry'' ''f'')\<lparr>is_entry := True\<rparr>"]
  by simp

text \<open>
  C7 as stated fails for the entry SuperBlock: after \<open>superclear()\<close> and one call of
  \<open>usage()\<close> its \<open>use_count()\<close> is 2, not 1.
\<close>

theorem entry_use_count_counterexample:
  "super_use_count (super_calls [CallSuperclear, CallUsage]
      ((SuperBlock_init ''0entry'' ''f'')\<lparr>is_entry := True\<rparr>))
   \<noteq> count_list [CallUsage] CallUsage"
  by (simp add: super_calls_def super_use_count_def super_usage_def superclear_def usage_def
      use_count_def SuperBlock_init_def)

section \<open>Finalization: stack layout and frame code\<close>

lemma strict_step:
  fixes xs :: "int list"
  assumes "sorted xs" "distinct xs" "Suc i < length xs"
  shows "xs ! i < xs ! Suc i"
proof -
  have "xs ! i \<le> xs ! Suc i"
    using assms(1,3) by (simp add: sorted_nth_mono)
  moreover have "xs ! i \<noteq> xs ! Suc i"
    using assms(2,3) by (simp add: nth_eq_iff_index_eq)
  ultimately show ?thesis by simp
qed

lemma strict_gap:
  fixes xs :: "int list"
  assumes "sorted xs" "distinct xs"
  shows "i \<le> j \<Longrightarrow> j < length xs \<Longrightarrow> xs ! i + int (j - i) \<le> xs ! j"
proof (induction j)
  case 0
  then show ?case by simp
next
  case (Suc j)
  show ?case
  proof (cases "i = Suc j")
    case True
    then show ?thesis by simp
  next
    case False
    with Suc.prems have ij: "i \<le> j" and j: "j < length xs" by simp_all
    then have "xs ! i + int (j - i) \<le> xs ! j" by (rule Suc.IH)
    moreover have "xs ! j < xs ! Suc j"
      using assms Suc.prems(2) by (rule strict_step)
    ultimately show ?thesis using ij by (simp add: Suc_diff_le)
  qed
qed

lemma dense_offsets:
  fixes xs :: "int list"
  assumes "sorted xs" "distinct xs" "xs \<noteq> []" "hd xs = 0" "last xs = int (length xs) - 1"
  shows "xs = map int [0..<length xs]"
proof (rule nth_equalityI)
  show "length xs = length (map int [0..<length xs])" by simp
next
  fix i assume i: "i < length xs"
  have "xs ! 0 + int (i - 0) \<le> xs ! i"
    using strict_gap [OF assms(1,2), of 0 i] i by simp
  then have lo: "int i \<le> xs ! i"
    using assms(3,4) by (simp add: hd_conv_nth)
  have "xs ! i + int (length xs - 1 - i) \<le> xs ! (length xs - 1)"
    using strict_gap [OF assms(1,2), of i "length xs - 1"] i by simp
  then have hi: "xs ! i \<le> int i"
    using assms(3,5) i by (simp add: last_conv_nth of_nat_diff)
  from lo hi i show "xs ! i = map int [0..<length xs] ! i" by simp
qed

lemma stack_vars_sorted: "sorted (map snd (stack_vars f))"
  by (simp add: stack_vars_def)

lemma add_entry_exit_checks:
  assumes "add_entry_exit tm f = Inr r" and "stack_vars f \<noteq> []"
  shows "snd (hd (stack_vars f)) = 0
       \<and> snd (last (stack_vars f)) = int (length (stack_vars f)) - 1
       \<and> card (set (map snd (stack_vars f))) = length (stack_vars f)"
  using assms
  by (auto simp add: add_entry_exit_def Let_def bind_err_def split: if_splits)

lemma add_entry_exit_dense:
  assumes "add_entry_exit tm f = Inr r"
  shows "map snd (stack_vars f) = map int [0..<length (stack_vars f)]"
proof (cases "stack_vars f = []")
  case True
  then show ?thesis by simp
next
  case False
  let ?xs = "map snd (stack_vars f)"
  from add_entry_exit_checks [OF assms False]
  have h: "hd ?xs = 0" and l: "last ?xs = int (length ?xs) - 1"
    and c: "card (set ?xs) = length ?xs"
    using False by (simp_all add: hd_map last_map)
  from c have "distinct ?xs" by (rule card_distinct)
  with stack_vars_sorted [of f] h l False
  have "?xs = map int [0..<length ?xs]"
    by (intro dense_offsets) simp_all
  then show ?thesis by simp
qed

lemma variables_finalized_add_entry_exit:
  assumes "variables_finalized tm f = Inr f'"
  shows "\<exists>r. add_entry_exit tm f = Inr r"
  using assms
  by (cases "add_entry_exit tm f")
     (auto simp add: variables_finalized_def bind_err_def split: if_splits)

lemma add_Inr:
  "add tm ex i b = Inr b' \<Longrightarrow> b' = b\<lparr>insns := insns b @ [rewrite_return ex i]\<rparr>"
  by (auto simp add: add_def validate_insn_def rewrite_return_def split: if_splits)

lemma add_forced:
  "force b \<Longrightarrow> add tm ex i b = Inr (b\<lparr>insns := insns b @ [rewrite_return ex i]\<rparr>)"
  by (simp add: add_def validate_insn_def rewrite_return_def)

lemma block_add_super:
  assumes blk: "blk = SuperBlockRef fn n" and "block_add tm blk i f = Inr f'"
  shows "f' = append_insns n [rewrite_return (exitblock f) i] f"
proof -
  from assms obtain b where b: "add tm (exitblock f) i (super_blocks f n) = Inr b"
    and f': "f' = f\<lparr>super_blocks := (super_blocks f)(n := b)\<rparr>"
    by (cases "add tm (exitblock f) i (super_blocks f n)") (auto simp add: bind_err_def)
  from add_Inr [OF b] f' show ?thesis
    by (simp add: append_insns_def)
qed

lemma append_insns_nil: "append_insns n [] f = f"
  by (simp add: append_insns_def)

lemma append_insns_append:
  "append_insns n ys (append_insns n xs f) = append_insns n (xs @ ys) f"
  by (simp add: append_insns_def)

lemma exitblock_append_insns [simp]: "exitblock (append_insns n is f) = exitblock f"
  by (simp add: append_insns_def)

lemma block_add_all_super:
  "blk = SuperBlockRef fn n \<Longrightarrow> block_add_all tm blk is f = Inr f' \<Longrightarrow>
   f' = append_insns n (map (rewrite_return (exitblock f)) is) f"
proof (induction "is" arbitrary: f)
  case Nil
  then show ?case by (simp add: append_insns_nil)
next
  case (Cons i "is")
  from Cons.prems obtain f1 where f1: "block_add tm blk i f = Inr f1"
    and r: "block_add_all tm blk is f1 = Inr f'"
    by (cases "block_add tm blk i f") (auto simp add: bind_err_def)
  from block_add_super [OF Cons.prems(1) f1]
  have e: "f1 = append_insns n [rewrite_return (exitblock f) i] f" .
  from Cons.IH [OF Cons.prems(1) r] e show ?case
    by (simp add: append_insns_append)
qed

lemma bind_err_Inr:
  assumes "bind_err m k = Inr y"
  obtains x where "m = Inr x" and "k x = Inr y"
  using assms by (cases m) (auto simp add: bind_err_def)

lemma append_insns_frame [simp]:
  "fscope (append_insns n is f) = fscope f"
  "entryblock (append_insns n is f) = entryblock f"
  "post_exit_insns (append_insns n is f) = post_exit_insns f"
  "basic_blocks (append_insns n is f) = basic_blocks f"
  "var_proxy (append_insns n is f) = var_proxy f"
  "varsfinalized (append_insns n is f) = varsfinalized f"
  by (simp_all add: append_insns_def)

lemma blocks_append_insns [simp]: "blocks (append_insns n is f) = blocks f"
  by (simp add: blocks_def allblocks_def)

lemma append_insns_twist:
  "n \<noteq> m \<Longrightarrow> append_insns n xs (append_insns m ys f) = append_insns m ys (append_insns n xs f)"
  by (simp add: append_insns_def fun_upd_twist)

lemma add_entry_exit_frame:
  assumes en: "entryblock f = SuperBlockRef fn en" and xn: "exitblock f = SuperBlockRef fn' xn"
    and ne: "en \<noteq> xn"
    and r: "bind_err
        (if vars \<noteq> [] then
              bind_err
                (block_add tm (entryblock f)
                   (Insn PushNewStackFrame [TypeTuple (map fst (rev vars))] None) f)
                (block_add tm (exitblock f) (Insn PopStack [] None))
         else Inr f) k = Inr y"
  shows "k (append_insns xn (frame_pop vars) (append_insns en (frame_push vars) f)) = Inr y"
proof (cases "vars = []")
  case True
  with r show ?thesis
    by (simp add: bind_err_def frame_pop_def frame_push_def append_insns_nil)
next
  case False
  with r obtain f1 where
    f1: "bind_err (block_add tm (entryblock f)
                   (Insn PushNewStackFrame [TypeTuple (map fst (rev vars))] None) f)
                (block_add tm (exitblock f) (Insn PopStack [] None)) = Inr f1"
    and k: "k f1 = Inr y"
    by (auto elim: bind_err_Inr)
  from f1 obtain f0 where
    f0: "block_add tm (entryblock f)
           (Insn PushNewStackFrame [TypeTuple (map fst (rev vars))] None) f = Inr f0"
    and f01: "block_add tm (exitblock f) (Insn PopStack [] None) f0 = Inr f1"
    by (auto elim: bind_err_Inr)
  from block_add_super [OF en f0] have e0: "f0 = append_insns en (frame_push vars) f"
    using False by (simp add: frame_push_def rewrite_return_def)
  then have x0: "exitblock f0 = SuperBlockRef fn' xn" using xn by simp
  from f01 xn have f01': "block_add tm (exitblock f0) (Insn PopStack [] None) f0 = Inr f1"
    by (simp only: x0)
  from block_add_super [OF x0 f01'] have "f1 = append_insns xn (frame_pop vars) f0"
    using False by (simp add: frame_pop_def rewrite_return_def)
  with e0 k show ?thesis by simp
qed

lemma add_entry_exit_result:
  assumes en: "entryblock f = SuperBlockRef fn en" and xn: "exitblock f = SuperBlockRef fn' xn"
    and ne: "en \<noteq> xn"
    and r: "add_entry_exit tm f = Inr (vars, f')"
  shows "vars = stack_vars f \<and>
     (\<exists>b0 bs. blocks f = b0 # bs \<and>
        f' = append_insns en (frame_push vars @ [Insn Branch [b0] None])
              (append_insns xn
                (frame_pop vars @ map (rewrite_return (exitblock f)) (post_exit_insns f)) f))"
proof -
  let ?vars = "stack_vars f"
  let ?f1 = "append_insns xn (frame_pop ?vars) (append_insns en (frame_push ?vars) f)"
  let ?k = "(\<lambda>f1. bind_err (block_add_all tm (exitblock f1) (post_exit_insns f1) f1)
        (\<lambda>f2. (case blocks f2 of
                  [] \<Rightarrow> Inl IndexError
                | b0 # bs \<Rightarrow>
                    bind_err (block_add tm (entryblock f2) (Insn Branch [b0] None) f2)
                      (\<lambda>f3. Inr (?vars, f3)))))"
  from r have nonempty_ok: "?vars \<noteq> [] \<longrightarrow> snd (hd ?vars) = 0
       \<and> snd (last ?vars) = int (length ?vars) - 1
       \<and> card (set (map snd ?vars)) = length ?vars"
    using add_entry_exit_checks by blast
  from r nonempty_ok have "bind_err
        (if ?vars \<noteq> [] then
              bind_err
                (block_add tm (entryblock f)
                   (Insn PushNewStackFrame [TypeTuple (map fst (rev ?vars))] None) f)
                (block_add tm (exitblock f) (Insn PopStack [] None))
         else Inr f) ?k = Inr (vars, f')"
    by (simp add: add_entry_exit_def Let_def split: if_splits)
  from add_entry_exit_frame [OF en xn ne this]
  have k1: "?k ?f1 = Inr (vars, f')" .
  have x1: "exitblock ?f1 = SuperBlockRef fn' xn" "entryblock ?f1 = SuperBlockRef fn en"
    using en xn by simp_all
  from k1 obtain f2 where
    f2: "block_add_all tm (exitblock ?f1) (post_exit_insns ?f1) ?f1 = Inr f2"
    and k2: "(case blocks f2 of
                  [] \<Rightarrow> Inl IndexError
                | b0 # bs \<Rightarrow>
                    bind_err (block_add tm (entryblock f2) (Insn Branch [b0] None) f2)
                      (\<lambda>f3. Inr (?vars, f3))) = Inr (vars, f')"
    by (auto elim: bind_err_Inr)
  from block_add_all_super [OF x1(1) f2]
  have e2: "f2 = append_insns xn (map (rewrite_return (exitblock f)) (post_exit_insns f)) ?f1"
    by simp
  then have b2: "blocks f2 = blocks f" and n2: "entryblock f2 = SuperBlockRef fn en"
    using en by simp_all
  from k2 b2 obtain b0 bs where b0: "blocks f = b0 # bs"
    and k3: "bind_err (block_add tm (entryblock f2) (Insn Branch [b0] None) f2)
                      (\<lambda>f3. Inr (?vars, f3)) = Inr (vars, f')"
    by (cases "blocks f") auto
  from k3 obtain f3 where f3: "block_add tm (entryblock f2) (Insn Branch [b0] None) f2 = Inr f3"
    and v: "vars = ?vars" and f': "f' = f3"
    by (auto elim: bind_err_Inr)
  from block_add_super [OF n2 f3] have "f3 = append_insns en [Insn Branch [b0] None] f2"
    by (simp add: rewrite_return_def)
  with e2 f' v have "f' = append_insns en (frame_push vars @ [Insn Branch [b0] None])
              (append_insns xn
                (frame_pop vars @ map (rewrite_return (exitblock f)) (post_exit_insns f)) f)"
    using ne by (simp add: append_insns_append append_insns_twist [of en xn])
  with v b0 show ?thesis by blast
qed

lemma all_terminated_basic:
  "list_all is_basic bs \<Longrightarrow> basic_blocks f' = basic_blocks f \<Longrightarrow>
   all_terminated tm f' bs = all_terminated tm f bs"
proof (induction bs)
  case Nil
  then show ?case by simp
next
  case (Cons b bs)
  then obtain fn n where b: "b = BasicBlockRef fn n"
    by (cases b) auto
  from Cons have "all_terminated tm f' bs = all_terminated tm f bs"
    by simp
  with b Cons.prems(2) show ?case
    by (cases "is_terminated tm (basic_blocks f n)") (simp_all add: bind_err_def)
qed

lemma configure_parameters_frame [simp]:
  "fscope (configure_parameters h f) = fscope f"
  "entryblock (configure_parameters h f) = entryblock f"
  "exitblock (configure_parameters h f) = exitblock f"
  "basic_blocks (configure_parameters h f) = basic_blocks f"
  "super_blocks (configure_parameters h f) = super_blocks f"
  by (simp_all add: configure_parameters_def Let_def)

lemma blocks_configure_parameters [simp]: "blocks (configure_parameters h f) = blocks f"
  by (simp add: blocks_def allblocks_def)

lemma set_force_frame [simp]:
  "exitblock (set_force b v f) = exitblock f"
  "entryblock (set_force b v f) = entryblock f"
  by (simp_all add: set_force_def)

lemma variables_finalized_result:
  assumes en: "entryblock f = SuperBlockRef fn en" and xn: "exitblock f = SuperBlockRef fn' xn"
    and ne: "en \<noteq> xn" and basic: "list_all is_basic (blocks f)"
    and r: "variables_finalized tm f = Inr f'"
  shows "\<exists>b0 bs c. blocks f = b0 # bs \<and> is_closed tm f = Inr c \<and>
     insns (super_blocks f' en) =
       insns (super_blocks f en) @ frame_push (stack_vars f) @ [Insn Branch [b0] None]
       @ (if c then map (rewrite_return (exitblock f))
                     (insns (super_blocks f xn) @ frame_pop (stack_vars f)
                      @ map (rewrite_return (exitblock f)) (post_exit_insns f))
          else [])
     \<and> insns (super_blocks f' xn) =
       (if c then []
        else insns (super_blocks f xn) @ frame_pop (stack_vars f)
             @ map (rewrite_return (exitblock f)) (post_exit_insns f))
     \<and> clear (super_blocks f' en) \<and> clear (super_blocks f' xn) \<and> varsfinalized f'"
proof -
  from r obtain vars f1 where a: "add_entry_exit tm f = Inr (vars, f1)"
    and k: "(let f2 = configure_parameters (vars \<noteq> []) f1 in
           bind_err (is_closed tm f2)
           (\<lambda>closed.
              bind_err
                (if closed then
                   (let f3 = set_force (entryblock f2) True f2 in
                    bind_err
                      (block_add_all tm (entryblock f3) (block_insns f3 (exitblock f3)) f3)
                      (\<lambda>f4. Inr (clear_insns (exitblock f4) f4)))
                 else Inr f2)
                (\<lambda>f5. Inr ((fn_superclear (exitblock f5) (fn_superclear (entryblock f5) f5))
                              \<lparr>varsfinalized := True\<rparr>)))) = Inr f'"
  proof -
    from r have d: "is_defined f" "\<not> varsfinalized f"
      by (auto simp add: variables_finalized_def split: if_splits)
    with r obtain p where p: "add_entry_exit tm f = Inr p"
      and q: "(case p of (stackvars, f1) \<Rightarrow>
           let f2 = configure_parameters (stackvars \<noteq> []) f1 in
           bind_err (is_closed tm f2)
           (\<lambda>closed.
              bind_err
                (if closed then
                   (let f3 = set_force (entryblock f2) True f2 in
                    bind_err
                      (block_add_all tm (entryblock f3) (block_insns f3 (exitblock f3)) f3)
                      (\<lambda>f4. Inr (clear_insns (exitblock f4) f4)))
                 else Inr f2)
                (\<lambda>f5. Inr ((fn_superclear (exitblock f5) (fn_superclear (entryblock f5) f5))
                              \<lparr>varsfinalized := True\<rparr>)))) = Inr f'"
      unfolding variables_finalized_def by (simp only: if_False if_True not_True_eq_False not_False_eq_True) (erule bind_err_Inr)
    obtain vars f1 where "p = (vars, f1)" by (cases p)
    with p q that show ?thesis by simp
  qed
  from add_entry_exit_result [OF en xn ne a] obtain b0 bs where
    v: "vars = stack_vars f" and b0: "blocks f = b0 # bs"
    and f1: "f1 = append_insns en (frame_push vars @ [Insn Branch [b0] None])
              (append_insns xn
                (frame_pop vars @ map (rewrite_return (exitblock f)) (post_exit_insns f)) f)"
    by blast
  let ?f2 = "configure_parameters (vars \<noteq> []) f1"
  have cl: "is_closed tm ?f2 = is_closed tm f"
  proof -
    have "all_terminated tm ?f2 (blocks f) = all_terminated tm f (blocks f)"
      using basic by (rule all_terminated_basic) (simp add: f1)
    then show ?thesis by (simp add: is_closed_def f1)
  qed
  from k obtain c where c: "is_closed tm f = Inr c"
    and k2: "bind_err
                (if c then
                   (let f3 = set_force (entryblock ?f2) True ?f2 in
                    bind_err
                      (block_add_all tm (entryblock f3) (block_insns f3 (exitblock f3)) f3)
                      (\<lambda>f4. Inr (clear_insns (exitblock f4) f4)))
                 else Inr ?f2)
                (\<lambda>f5. Inr ((fn_superclear (exitblock f5) (fn_superclear (entryblock f5) f5))
                              \<lparr>varsfinalized := True\<rparr>)) = Inr f'"
    unfolding Let_def cl by (auto elim: bind_err_Inr)
  have e2: "entryblock ?f2 = SuperBlockRef fn en" and x2: "exitblock ?f2 = SuperBlockRef fn' xn"
    using f1 en xn by simp_all
  show ?thesis
  proof (cases c)
    case False
    with k2 have "f' = (fn_superclear (exitblock ?f2) (fn_superclear (entryblock ?f2) ?f2))
                              \<lparr>varsfinalized := True\<rparr>"
      by (simp add: bind_err_def)
    then have "insns (super_blocks f' en) =
       insns (super_blocks f en) @ frame_push (stack_vars f) @ [Insn Branch [b0] None]"
      and "insns (super_blocks f' xn) = insns (super_blocks f xn) @ frame_pop (stack_vars f)
             @ map (rewrite_return (exitblock f)) (post_exit_insns f)"
      and "clear (super_blocks f' en) \<and> clear (super_blocks f' xn) \<and> varsfinalized f'"
      using ne by (simp_all add: en xn f1 v fn_superclear_def superclear_def append_insns_def)
    with False b0 c show ?thesis
      by (intro exI [of _ b0] exI [of _ bs] exI [of _ False]) simp
  next
    case True
    let ?f3 = "set_force (entryblock ?f2) True ?f2"
    from True k2 obtain f4 where
      f4: "block_add_all tm (entryblock ?f3) (block_insns ?f3 (exitblock ?f3)) ?f3 = Inr f4"
      and f': "f' = (fn_superclear (exitblock (clear_insns (exitblock f4) f4))
                 (fn_superclear (entryblock (clear_insns (exitblock f4) f4))
                    (clear_insns (exitblock f4) f4)))\<lparr>varsfinalized := True\<rparr>"
      unfolding Let_def by (auto elim!: bind_err_Inr)
    have e3: "entryblock ?f3 = SuperBlockRef fn en" using e2 by simp
    have x3: "exitblock ?f3 = SuperBlockRef fn' xn" using x2 by simp
    from block_add_all_super [OF e3 f4]
    have e4: "f4 = append_insns en
        (map (rewrite_return (exitblock f)) (block_insns ?f3 (exitblock ?f3))) ?f3"
      using x3 xn by simp
    have bi: "block_insns ?f3 (exitblock ?f3) = insns (super_blocks f xn) @ frame_pop (stack_vars f)
             @ map (rewrite_return (exitblock f)) (post_exit_insns f)"
      using ne by (simp add: en xn f1 v set_force_def append_insns_def)
    have "insns (super_blocks f' en) =
       insns (super_blocks f en) @ frame_push (stack_vars f) @ [Insn Branch [b0] None]
       @ map (rewrite_return (exitblock f))
                     (insns (super_blocks f xn) @ frame_pop (stack_vars f)
                      @ map (rewrite_return (exitblock f)) (post_exit_insns f))"
      and "insns (super_blocks f' xn) = []"
      and "clear (super_blocks f' en) \<and> clear (super_blocks f' xn) \<and> varsfinalized f'"
      unfolding f' e4 bi using ne
      by (simp_all add: en xn f1 v fn_superclear_def superclear_def append_insns_def
          set_force_def clear_insns_def)
    with True b0 c show ?thesis
      by (intro exI [of _ b0] exI [of _ bs] exI [of _ True]) simp
  qed
qed

lemmas eval_defs = variables_finalized_def add_entry_exit_def is_defined_def
      Let_def bind_err_def add_def validate_insn_def
      configure_parameters_def is_closed_def is_terminated_def scope_values_def
      set_force_def clear_insns_def fn_superclear_def superclear_def blocks_def allblocks_def
      stack_vars_def create_block_def IRFunction_init_def uniq_def uniq_name_def
      scope_setitem_def BasicBlock_init_def SuperBlock_init_def example_fn_with_def
      entry_insns_of_def exit_insns_of_def branch_terminates_def

lemma example_fn_shape:
  "entryblock example_fn = SuperBlockRef ''f'' ''0entry''"
  "exitblock example_fn = SuperBlockRef ''f'' ''0ret''"
  "list_all is_basic (blocks example_fn)"
  "blocks example_fn = [BasicBlockRef ''f'' ''entry'']"
  "stack_vars example_fn = [(q10, 0), (i32, 1)]"
  "insns (super_blocks example_fn ''0entry'') = [Insn RevokeEventAdvancement [IRFunctionRef ''f''] None]"
  "insns (super_blocks example_fn ''0ret'') = []"
  "post_exit_insns example_fn = []"
  by (simp_all add: eval_defs example_fn_def)

lemma example_fn_finalized:
  "\<exists>f'. variables_finalized branch_terminates example_fn = Inr f'"
  by (simp add: eval_defs example_fn_def)

lemma example_fn_closed: "is_closed branch_terminates example_fn = Inr True"
  by (simp add: eval_defs example_fn_def)

lemma example_gap_fn_stack_vars: "stack_vars example_gap_fn = [(q10, 0), (i32, 2)]"
  by (simp add: eval_defs example_gap_fn_def)

text \<open>
  C1. \<open>stack_vars\<close> lists the stack-resident locals of the scope (the locals whose
  storage is a frame slot) sorted by offset. Whenever \<open>add_entry_exit\<close>, and so
  \<open>variables_finalized\<close>, succeeds, their offsets in that order are exactly
  0, 1, ..., N - 1; if they are not (a gap or a duplicate), both fail.
\<close>

theorem stack_offsets_dense:
  "(add_entry_exit tm f = Inr r \<longrightarrow>
      map snd (stack_vars f) = map int [0..<length (stack_vars f)])
   \<and> (variables_finalized tm f = Inr f' \<longrightarrow>
      map snd (stack_vars f) = map int [0..<length (stack_vars f)])
   \<and> (map snd (stack_vars f) \<noteq> map int [0..<length (stack_vars f)] \<longrightarrow>
      (\<exists>e. add_entry_exit tm f = Inl e) \<and> (\<exists>e. variables_finalized tm f = Inl e))
   \<and> sorted (map snd (stack_vars f))
   \<and> set (stack_vars f) = set (concat (map (nbt_offset_var (var_proxy f)) (scope_values (fscope f))))
   \<and> length (stack_vars f) = length (concat (map (nbt_offset_var (var_proxy f)) (scope_values (fscope f))))"
proof -
  have a: "add_entry_exit tm f = Inr r \<Longrightarrow>
      map snd (stack_vars f) = map int [0..<length (stack_vars f)]" for r
    by (rule add_entry_exit_dense)
  have b: "variables_finalized tm f = Inr f' \<Longrightarrow>
      map snd (stack_vars f) = map int [0..<length (stack_vars f)]" for f'
    using variables_finalized_add_entry_exit a by blast
  have c: "\<exists>e. add_entry_exit tm f = Inl e"
    if "map snd (stack_vars f) \<noteq> map int [0..<length (stack_vars f)]"
    using that a by (cases "add_entry_exit tm f") auto
  have d: "\<exists>e. variables_finalized tm f = Inl e"
    if "map snd (stack_vars f) \<noteq> map int [0..<length (stack_vars f)]"
    using that b by (cases "variables_finalized tm f") auto
  have e: "set (stack_vars f) = set (concat (map (nbt_offset_var (var_proxy f)) (scope_values (fscope f))))"
    "length (stack_vars f) = length (concat (map (nbt_offset_var (var_proxy f)) (scope_values (fscope f))))"
    unfolding stack_vars_def by simp_all
  from a b c d e stack_vars_sorted [of f] show ?thesis by blast
qed

theorem stack_offsets_dense_witness:
  "(\<exists>f'. variables_finalized branch_terminates example_fn = Inr f')
   \<and> map snd (stack_vars example_fn) = [0, 1]
   \<and> map snd (stack_vars example_gap_fn) = [0, 2]
   \<and> (\<exists>e. variables_finalized branch_terminates example_gap_fn = Inl e)"
proof -
  obtain f' where ok: "variables_finalized branch_terminates example_fn = Inr f'"
    using example_fn_finalized by blast
  with stack_offsets_dense [of branch_terminates example_fn _ f']
  have "map snd (stack_vars example_fn) = map int [0..<length (stack_vars example_fn)]"
    by blast
  then have one: "map snd (stack_vars example_fn) = [0, 1]"
    by (simp add: example_fn_shape upt_rec)
  have gap: "map snd (stack_vars example_gap_fn) = [0, 2]"
    by (simp add: example_gap_fn_stack_vars)
  then have "map snd (stack_vars example_gap_fn) \<noteq> map int [0..<length (stack_vars example_gap_fn)]"
    by (simp add: example_gap_fn_stack_vars upt_rec)
  with stack_offsets_dense [of branch_terminates example_gap_fn]
  have "\<exists>e. variables_finalized branch_terminates example_gap_fn = Inl e"
    by blast
  with ok one gap show ?thesis by blast
qed

text \<open>
  C8, amended. For a function whose entry and exit are its two distinct SuperBlocks and
  whose user blocks are plain blocks: \<open>add_entry_exit\<close> appends to the entry SuperBlock,
  after whatever it already holds, a frame push (present exactly when there is a
  stack-resident local, carrying the slot types in descending offset order) and then an
  unconditional branch to the first user block, which is the entry's last instruction at
  that point; it appends to the exit SuperBlock the frame pop (under the same condition)
  and the post-exit instructions. \<open>variables_finalized\<close> leaves the two lists so
  when some user block is not terminated; when every user block is terminated it appends
  the exit SuperBlock's instructions to the entry, after the branch, and empties the exit.
\<close>

theorem finalization_frame_code:
  assumes "entryblock f = SuperBlockRef fn en" and "exitblock f = SuperBlockRef fn' xn"
    and "en \<noteq> xn" and "list_all is_basic (blocks f)"
  shows
    "(add_entry_exit tm f = Inr (vars, f1) \<longrightarrow>
        (\<exists>b0 bs. blocks f = b0 # bs \<and> vars = stack_vars f
           \<and> insns (super_blocks f1 en) =
               insns (super_blocks f en) @ frame_push vars @ [Insn Branch [b0] None]
           \<and> insns (super_blocks f1 xn) =
               insns (super_blocks f xn) @ frame_pop vars
               @ map (rewrite_return (exitblock f)) (post_exit_insns f)))
     \<and> (variables_finalized tm f = Inr f' \<longrightarrow>
        (\<exists>b0 bs c. blocks f = b0 # bs \<and> is_closed tm f = Inr c
           \<and> insns (super_blocks f' en) =
               insns (super_blocks f en) @ frame_push (stack_vars f) @ [Insn Branch [b0] None]
               @ (if c then map (rewrite_return (exitblock f))
                             (insns (super_blocks f xn) @ frame_pop (stack_vars f)
                              @ map (rewrite_return (exitblock f)) (post_exit_insns f))
                  else [])
           \<and> insns (super_blocks f' xn) =
               (if c then []
                else insns (super_blocks f xn) @ frame_pop (stack_vars f)
                     @ map (rewrite_return (exitblock f)) (post_exit_insns f))))
     \<and> frame_push (stack_vars f) =
         (if stack_vars f = [] then []
          else [Insn PushNewStackFrame [TypeTuple (rev (map fst (stack_vars f)))] None])
     \<and> frame_pop (stack_vars f) = (if stack_vars f = [] then [] else [Insn PopStack [] None])
     \<and> sorted (map snd (stack_vars f))"
proof (intro conjI impI)
  assume r: "add_entry_exit tm f = Inr (vars, f1)"
  from add_entry_exit_result [OF assms(1,2,3) r] obtain b0 bs where
    v: "vars = stack_vars f" and b: "blocks f = b0 # bs"
    and f1: "f1 = append_insns en (frame_push vars @ [Insn Branch [b0] None])
              (append_insns xn
                (frame_pop vars @ map (rewrite_return (exitblock f)) (post_exit_insns f)) f)"
    by blast
  from f1 assms(3) have
    "insns (super_blocks f1 en) =
       insns (super_blocks f en) @ frame_push vars @ [Insn Branch [b0] None]"
    "insns (super_blocks f1 xn) =
       insns (super_blocks f xn) @ frame_pop vars
       @ map (rewrite_return (exitblock f)) (post_exit_insns f)"
    by (simp_all add: append_insns_def)
  with v b show "\<exists>b0 bs. blocks f = b0 # bs \<and> vars = stack_vars f
           \<and> insns (super_blocks f1 en) =
               insns (super_blocks f en) @ frame_push vars @ [Insn Branch [b0] None]
           \<and> insns (super_blocks f1 xn) =
               insns (super_blocks f xn) @ frame_pop vars
               @ map (rewrite_return (exitblock f)) (post_exit_insns f)"
    by blast
next
  assume r: "variables_finalized tm f = Inr f'"
  from variables_finalized_result [OF assms r]
  show "\<exists>b0 bs c. blocks f = b0 # bs \<and> is_closed tm f = Inr c
           \<and> insns (super_blocks f' en) =
               insns (super_blocks f en) @ frame_push (stack_vars f) @ [Insn Branch [b0] None]
               @ (if c then map (rewrite_return (exitblock f))
                             (insns (super_blocks f xn) @ frame_pop (stack_vars f)
                              @ map (rewrite_return (exitblock f)) (post_exit_insns f))
                  else [])
           \<and> insns (super_blocks f' xn) =
               (if c then []
                else insns (super_blocks f xn) @ frame_pop (stack_vars f)
                     @ map (rewrite_return (exitblock f)) (post_exit_insns f))"
    by blast
next
  show "frame_push (stack_vars f) =
         (if stack_vars f = [] then []
          else [Insn PushNewStackFrame [TypeTuple (rev (map fst (stack_vars f)))] None])"
    by (simp add: frame_push_def rev_map)
next
  show "frame_pop (stack_vars f) = (if stack_vars f = [] then [] else [Insn PopStack [] None])"
    by (simp add: frame_pop_def)
next
  show "sorted (map snd (stack_vars f))"
    by (rule stack_vars_sorted)
qed

theorem finalization_frame_code_witness:
  "\<exists>f'. variables_finalized branch_terminates example_fn = Inr f'
     \<and> insns (super_blocks f' ''0entry'') =
         [Insn RevokeEventAdvancement [IRFunctionRef ''f''] None,
          Insn PushNewStackFrame [TypeTuple [i32, q10]] None,
          Insn Branch [BasicBlockRef ''f'' ''entry''] None,
          Insn PopStack [] None]
     \<and> insns (super_blocks f' ''0ret'') = []"
proof -
  obtain f' where ok: "variables_finalized branch_terminates example_fn = Inr f'"
    using example_fn_finalized by blast
  have ne: "''0entry'' \<noteq> ''0ret''" by simp
  from finalization_frame_code [OF example_fn_shape(1,2) ne example_fn_shape(3),
      of branch_terminates _ _ f'] ok
  obtain b0 bs c where "blocks example_fn = b0 # bs"
    and "is_closed branch_terminates example_fn = Inr c"
    and "insns (super_blocks f' ''0entry'') =
               insns (super_blocks example_fn ''0entry'') @ frame_push (stack_vars example_fn)
               @ [Insn Branch [b0] None]
               @ (if c then map (rewrite_return (exitblock example_fn))
                             (insns (super_blocks example_fn ''0ret'') @ frame_pop (stack_vars example_fn)
                              @ map (rewrite_return (exitblock example_fn)) (post_exit_insns example_fn))
                  else [])"
    and "insns (super_blocks f' ''0ret'') =
               (if c then []
                else insns (super_blocks example_fn ''0ret'') @ frame_pop (stack_vars example_fn)
                     @ map (rewrite_return (exitblock example_fn)) (post_exit_insns example_fn))"
    by blast
  then have "insns (super_blocks f' ''0entry'') =
         [Insn RevokeEventAdvancement [IRFunctionRef ''f''] None,
          Insn PushNewStackFrame [TypeTuple [i32, q10]] None,
          Insn Branch [BasicBlockRef ''f'' ''entry''] None,
          Insn PopStack [] None]
     \<and> insns (super_blocks f' ''0ret'') = []"
    by (simp add: example_fn_shape example_fn_closed frame_push_def frame_pop_def
        rewrite_return_def)
  with ok show ?thesis by blast
qed

text \<open>
  C8 as stated fails on the example: the entry SuperBlock already held an instruction, so
  the push is second, not first; every user block is terminated, so the entry ends with
  the frame pop, not with the branch, and the exit SuperBlock holds no pop although the
  function has stack-resident locals.
\<close>

theorem frame_push_prepended_counterexample:
  "map_sum id entry_insns_of (variables_finalized branch_terminates example_fn) =
     Inr [Insn RevokeEventAdvancement [IRFunctionRef ''f''] None,
          Insn PushNewStackFrame [TypeTuple [i32, q10]] None,
          Insn Branch [BasicBlockRef ''f'' ''entry''] None,
          Insn PopStack [] None]
   \<and> map_sum id exit_insns_of (variables_finalized branch_terminates example_fn) = Inr []
   \<and> stack_vars example_fn \<noteq> []"
  by (simp add: eval_defs example_fn_def)

section \<open>Insertion into a block\<close>

text \<open>
  C2. For a block (plain or SuperBlock) whose last instruction is a terminator, adding
  an instruction fails exactly when the block's \<open>force\<close> flag is not set. Whenever an
  addition succeeds, the instruction appended is the given one, except that a
  \<open>Return\<close> is replaced by a \<open>Branch\<close> to the exit block; so the appended instruction
  is never a \<open>Return\<close>. For a block of a function that exit block is the function's
  own exit SuperBlock.
\<close>

theorem add_after_terminator:
  fixes b :: "'a basic_block_scheme"
  shows
  "(insns b \<noteq> [] \<and> tm (last (insns b)) \<longrightarrow>
      ((\<exists>e. add tm ex i b = Inl e) \<longleftrightarrow> \<not> force b))
   \<and> (\<forall>b'. add tm ex i b = Inr b' \<longrightarrow>
         insns b' = insns b @ [if insn_class i = Return then Insn Branch [ex] None else i]
         \<and> insn_class (last (insns b')) \<noteq> Return)
   \<and> (\<forall>f'. block_add tm (BasicBlockRef fn n) i f = Inr f' \<longrightarrow>
         insns (basic_blocks f' n) =
           insns (basic_blocks f n)
           @ [if insn_class i = Return then Insn Branch [exitblock f] None else i])"
proof (intro conjI impI allI)
  assume "insns b \<noteq> [] \<and> tm (last (insns b))"
  then show "(\<exists>e. add tm ex i b = Inl e) \<longleftrightarrow> \<not> force b"
    by (simp add: add_def validate_insn_def)
next
  fix b' assume a: "add tm ex i b = Inr b'"
  from add_Inr [OF a]
  show "insns b' = insns b @ [if insn_class i = Return then Insn Branch [ex] None else i]"
    by (simp add: rewrite_return_def)
  then show "insn_class (last (insns b')) \<noteq> Return"
    by simp
next
  fix f' assume "block_add tm (BasicBlockRef fn n) i f = Inr f'"
  then obtain b' where a: "add tm (exitblock f) i (basic_blocks f n) = Inr b'"
    and f': "f' = f\<lparr>basic_blocks := (basic_blocks f)(n := b')\<rparr>"
    by (auto elim: bind_err_Inr)
  from add_Inr [OF a] f'
  show "insns (basic_blocks f' n) =
           insns (basic_blocks f n)
           @ [if insn_class i = Return then Insn Branch [exitblock f] None else i]"
    by (simp add: rewrite_return_def)
qed

theorem add_after_terminator_witness:
  "(\<exists>e. add branch_terminates (SuperBlockRef ''f'' ''0ret'') (Insn PopStack [] None)
          (basic_blocks example_fn ''entry'') = Inl e)
   \<and> \<not> force (basic_blocks example_fn ''entry'')
   \<and> map_sum id insns
        (add branch_terminates (SuperBlockRef ''f'' ''0ret'') (Insn Return [] None)
          ((basic_blocks example_fn ''entry'')\<lparr>force := True\<rparr>))
      = Inr [Insn Branch [SuperBlockRef ''f'' ''0ret''] None,
             Insn Branch [SuperBlockRef ''f'' ''0ret''] None]"
proof -
  let ?b = "basic_blocks example_fn ''entry''"
  let ?ex = "SuperBlockRef ''f'' ''0ret''"
  have b: "insns ?b = [Insn Branch [?ex] None]" "\<not> force ?b"
    by (simp_all add: eval_defs example_fn_def)
  then have h: "insns ?b \<noteq> [] \<and> branch_terminates (last (insns ?b))"
    by (simp add: branch_terminates_def)
  from add_after_terminator [of ?b branch_terminates ?ex "Insn PopStack [] None"] h b
  have one: "\<exists>e. add branch_terminates ?ex (Insn PopStack [] None) ?b = Inl e"
    by blast
  have "\<exists>b'. add branch_terminates ?ex (Insn Return [] None) (?b\<lparr>force := True\<rparr>) = Inr b'"
    by (simp add: add_def validate_insn_def)
  then obtain b' where ok: "add branch_terminates ?ex (Insn Return [] None) (?b\<lparr>force := True\<rparr>) = Inr b'"
    by blast
  with add_after_terminator [of "?b\<lparr>force := True\<rparr>" branch_terminates ?ex "Insn Return [] None"]
  have "insns b' = insns (?b\<lparr>force := True\<rparr>) @ [Insn Branch [?ex] None]"
    by simp
  with ok b have two: "map_sum id insns
        (add branch_terminates ?ex (Insn Return [] None) (?b\<lparr>force := True\<rparr>))
      = Inr [Insn Branch [?ex] None, Insn Branch [?ex] None]"
    by simp
  from one b two show ?thesis by blast
qed

section \<open>Closing a unit\<close>

lemma end_loop_Inr:
  "(end_loop t its = Inr ()) =
   (\<forall>(nm, var) \<in> set its. \<forall>m. var = IRFunctionRef m \<longrightarrow> finished (funcs t m))"
proof (induction its)
  case Nil
  then show ?case by simp
next
  case (Cons a its)
  obtain nm var where a: "a = (nm, var)" by (cases a)
  show ?case
    using Cons a by (cases var) (auto simp add: extern_finished_def)
qed

lemma end_loop_Inl:
  "end_loop t its = Inl (AssertionError (''unfinished function '' @ nm)) \<Longrightarrow>
   \<exists>m. (nm, IRFunctionRef m) \<in> set its \<and> \<not> finished (funcs t m)"
proof (induction its)
  case Nil
  then show ?case by simp
next
  case (Cons a its)
  obtain nm' var where a: "a = (nm', var)" by (cases a)
  show ?case
    using Cons a by (cases var) (auto simp add: extern_finished_def split: if_splits)
qed

lemma end_loop_without_externs:
  "end_loop t (filter (\<lambda>(nm, var). \<not> is_extern_function var) its) = end_loop t its"
proof (induction its)
  case Nil
  then show ?case by simp
next
  case (Cons a its)
  obtain nm var where a: "a = (nm, var)" by (cases a)
  show ?case
    using Cons a by (cases var) (simp_all add: extern_finished_def)
qed

text \<open>
  C10. The \<open>finished\<close> property of an extern stub is true whatever the stub.
  \<open>TopLevel.end\<close> succeeds exactly when the unit is not already finished and every
  \<open>IRFunction\<close> of its scope is finished; an "unfinished function" failure names an
  entry that is an unfinished \<open>IRFunction\<close>, never an extern stub; and the loop of
  \<open>end\<close> gives the same result with the extern stubs left out of the scope.
\<close>

theorem extern_never_blocks_end:
  "extern_finished e
   \<and> fn_finished t (ExternFunctionRef e)
   \<and> ((\<exists>t'. top_end t = Inr t') \<longleftrightarrow>
        \<not> top_finished t
        \<and> (\<forall>(nm, var) \<in> set (items (top_scope t)).
              \<forall>m. var = IRFunctionRef m \<longrightarrow> finished (funcs t m)))
   \<and> (top_end t = Inl (AssertionError (''unfinished function '' @ nm)) \<longrightarrow>
        (\<exists>m. (nm, IRFunctionRef m) \<in> set (items (top_scope t)) \<and> \<not> finished (funcs t m)))
   \<and> end_loop t (filter (\<lambda>(nm, var). \<not> is_extern_function var) (items (top_scope t)))
       = end_loop t (items (top_scope t))"
proof (intro conjI)
  show "extern_finished e" by (simp add: extern_finished_def)
  show "fn_finished t (ExternFunctionRef e)" by (simp add: extern_finished_def)
  have "(\<exists>t'. top_end t = Inr t') \<longleftrightarrow>
      \<not> top_finished t \<and> end_loop t (items (top_scope t)) = Inr ()"
    by (cases "end_loop t (items (top_scope t))") (auto simp add: top_end_def bind_err_def)
  then show "(\<exists>t'. top_end t = Inr t') \<longleftrightarrow>
        \<not> top_finished t
        \<and> (\<forall>(nm, var) \<in> set (items (top_scope t)).
              \<forall>m. var = IRFunctionRef m \<longrightarrow> finished (funcs t m))"
    by (simp only: end_loop_Inr)
  show "top_end t = Inl (AssertionError (''unfinished function '' @ nm)) \<longrightarrow>
        (\<exists>m. (nm, IRFunctionRef m) \<in> set (items (top_scope t)) \<and> \<not> finished (funcs t m))"
  proof
    assume a: "top_end t = Inl (AssertionError (''unfinished function '' @ nm))"
    then have "end_loop t (items (top_scope t)) = Inl (AssertionError (''unfinished function '' @ nm))"
      by (cases "end_loop t (items (top_scope t))")
         (auto simp add: top_end_def bind_err_def split: if_splits)
    then show "\<exists>m. (nm, IRFunctionRef m) \<in> set (items (top_scope t)) \<and> \<not> finished (funcs t m)"
      by (rule end_loop_Inl)
  qed
  show "end_loop t (filter (\<lambda>(nm, var). \<not> is_extern_function var) (items (top_scope t)))
       = end_loop t (items (top_scope t))"
    by (rule end_loop_without_externs)
qed

lemma example_unit_items:
  "items (top_scope example_unit) =
     [(''pos_util'', OtherEntity ''PosUtilEntity''), (''_global_entity'', OtherEntity ''GlobalEntity''),
      (''f'', IRFunctionRef ''f''), (''g'', ExternFunctionRef example_stub)]"
  "\<not> top_finished example_unit"
  "finished (funcs example_unit ''f'')"
  "items (top_scope example_unfinished_unit) = items (top_scope example_unit)"
  "\<not> finished (funcs example_unfinished_unit ''f'')"
  by (simp_all add: example_unit_def example_unfinished_unit_def TopLevel_init_def
      scope_setitem_def eval_defs example_fn_def)

theorem extern_never_blocks_end_witness:
  "(\<exists>t'. top_end example_unit = Inr t')
   \<and> top_end example_unfinished_unit = Inl (AssertionError ''unfinished function f'')
   \<and> (''f'', IRFunctionRef ''f'') \<in> set (items (top_scope example_unfinished_unit))
   \<and> \<not> finished (funcs example_unfinished_unit ''f'')"
proof -
  have "\<not> top_finished example_unit
        \<and> (\<forall>(nm, var) \<in> set (items (top_scope example_unit)).
              \<forall>m. var = IRFunctionRef m \<longrightarrow> finished (funcs example_unit m))"
    by (simp add: example_unit_items)
  with extern_never_blocks_end [of example_stub example_unit]
  have one: "\<exists>t'. top_end example_unit = Inr t'"
    by blast
  have two: "top_end example_unfinished_unit = Inl (AssertionError (''unfinished function '' @ ''f''))"
    by (simp add: top_end_def example_unit_items bind_err_def extern_finished_def)
       (simp add: example_unfinished_unit_def example_unit_def TopLevel_init_def)
  with extern_never_blocks_end [of example_stub example_unfinished_unit "''f''"]
  have "\<exists>m. (''f'', IRFunctionRef m) \<in> set (items (top_scope example_unfinished_unit))
          \<and> \<not> finished (funcs example_unfinished_unit m)"
    by blast
  with one two show ?thesis
    by (simp add: example_unit_items)
qed

section \<open>Forward declarations\<close>

lemma include_loop_unchanged:
  "include_loop other its oid self = Inr t' \<Longrightarrow>
   t' = self \<and> (\<forall>(nm, var) \<in> set its. \<not> (is_visible_function var \<and> take 2 nm \<noteq> ''__''))"
proof (induction its arbitrary: oid self)
  case Nil
  then show ?case by simp
next
  case (Cons a its)
  obtain nm var where a: "a = (nm, var)" by (cases a)
  show ?case
  proof (cases "is_visible_function var \<and> take 2 nm \<noteq> ''__''")
    case True
    have "ExternFunction_init oid g ArgTopLevel ArgNone = Inl (TypeError ''TopLevel object is not iterable'')" for g
      by (simp add: ExternFunction_init_def bind_err_def)
    with True a have "\<exists>e. include_loop other (a # its) oid self = Inl e"
      by (cases "global_name other var") (auto simp add: bind_err_def)
    with Cons.prems show ?thesis by simp
  next
    case False
    with Cons a show ?thesis by auto
  qed
qed

lemma include_from_stores_no_stub:
  assumes "include_from other oid self = Inr t'"
  shows "t' = self
      \<and> (\<forall>(nm, var) \<in> set (items (top_scope other)).
            \<not> (is_visible_function var \<and> take 2 nm \<noteq> ''__''))"
proof -
  from assms have "include_loop other (items (top_scope other)) oid self = Inr t'"
    by (simp add: include_from_def)
  then show ?thesis by (rule include_loop_unchanged)
qed

text \<open>
  C6. On a unit that holds a defined function \<open>f\<close>, \<open>include_from\<close> does not
  store a stub for \<open>f\<close>: the constructor call passes the importing unit where the
  parameter list belongs and raises \<open>TypeError\<close>.
\<close>

theorem include_from_type_error:
  "include_from example_unit 0 TopLevel_init = Inl (TypeError ''TopLevel object is not iterable'')"
proof -
  have d: "is_defined (funcs example_unit ''f'')"
    by (simp add: example_unit_def TopLevel_init_def eval_defs example_fn_def)
  show ?thesis
    by (simp add: include_from_def example_unit_items d ExternFunction_init_def bind_err_def)
qed

section \<open>Saving and loading a unit\<close>

lemma example_unit_end: "top_end example_unit = Inr example_finished_unit"
  by (simp add: top_end_def example_unit_items bind_err_def extern_finished_def
      example_finished_unit_def)

text \<open>
  C5, amended. For a finished unit \<open>u\<close> whose \<open>ObjectFormat\<close> object the library
  reads back from its own serialization (\<open>loads (dumps obj) = obj\<close> for that one
  object), \<open>load (save u)\<close> succeeds and returns the \<open>ObjectFormat\<close> object whose
  \<open>top\<close> is \<open>u\<close> and whose stamp is the running version: the wrapper, not the unit.
  A blob that holds an \<open>ObjectFormat\<close> object with another stamp makes \<open>load\<close> fail,
  and whatever \<open>load\<close> returns is an \<open>ObjectFormat\<close> object with the running
  version.
\<close>

theorem load_save_wrapper:
  "(top_finished u
      \<and> loads (dumps (ObjectFormatObj (ObjectFormat_init u)))
          = Some (ObjectFormatObj (ObjectFormat_init u)) \<longrightarrow>
      load loads (save dumps u) = Inr (ObjectFormatObj \<lparr>obj_top = u, obj_version = VERSION\<rparr>))
   \<and> (loads data = Some (ObjectFormatObj obj) \<and> obj_version obj \<noteq> VERSION \<longrightarrow>
        load loads data = Inl (AssertionError []))
   \<and> (load loads data = Inr r \<longrightarrow>
        (\<exists>obj. r = ObjectFormatObj obj \<and> obj_version obj = VERSION \<and> loads data = Some r))"
proof (intro conjI impI)
  assume "top_finished u
      \<and> loads (dumps (ObjectFormatObj (ObjectFormat_init u)))
          = Some (ObjectFormatObj (ObjectFormat_init u))"
  then show "load loads (save dumps u) = Inr (ObjectFormatObj \<lparr>obj_top = u, obj_version = VERSION\<rparr>)"
    by (simp add: load_def save_def ObjectFormat_init_def)
next
  assume "loads data = Some (ObjectFormatObj obj) \<and> obj_version obj \<noteq> VERSION"
  then show "load loads data = Inl (AssertionError [])"
    by (simp add: load_def)
next
  assume "load loads data = Inr r"
  then show "\<exists>obj. r = ObjectFormatObj obj \<and> obj_version obj = VERSION \<and> loads data = Some r"
    by (auto simp add: load_def split: option.splits pyobject.splits if_splits)
qed

theorem load_save_wrapper_witness:
  "top_end example_unit = Inr example_finished_unit
   \<and> load Some (save id example_finished_unit) = Inr (example_blob ''1.0.0'')
   \<and> load Some (example_blob ''0.9.0'') = Inl (AssertionError [])"
proof -
  have "top_finished example_finished_unit
      \<and> Some (id (ObjectFormatObj (ObjectFormat_init example_finished_unit)))
          = Some (ObjectFormatObj (ObjectFormat_init example_finished_unit))"
    by (simp add: example_finished_unit_def)
  with load_save_wrapper [where u = example_finished_unit and loads = Some and dumps = id]
  have one: "load Some (save id example_finished_unit) = Inr (example_blob ''1.0.0'')"
    by (simp add: example_blob_def VERSION_def)
  have "Some (example_blob ''0.9.0'')
          = Some (ObjectFormatObj \<lparr>obj_top = example_finished_unit, obj_version = ''0.9.0''\<rparr>)
        \<and> obj_version \<lparr>obj_top = example_finished_unit, obj_version = ''0.9.0''\<rparr> \<noteq> VERSION"
    by (simp add: example_blob_def VERSION_def)
  with load_save_wrapper [where loads = Some and data = "example_blob ''0.9.0''"
      and obj = "\<lparr>obj_top = example_finished_unit, obj_version = ''0.9.0''\<rparr>"]
  have two: "load Some (example_blob ''0.9.0'') = Inl (AssertionError [])"
    by blast
  from one two example_unit_end show ?thesis by simp
qed

text \<open>
  C5 as stated fails on the finished unit that \<open>end\<close> makes of the example unit, with
  a serialization that reads back everything: what \<open>load (save u)\<close> returns is the
  wrapper object, not the unit.
\<close>

theorem load_returns_unit_counterexample:
  "top_finished example_finished_unit
   \<and> load Some (save id example_finished_unit) = Inr (example_blob ''1.0.0'')
   \<and> load Some (save id example_finished_unit) \<noteq> Inr (TopLevelObj example_finished_unit)"
  by (simp add: load_def save_def ObjectFormat_init_def example_finished_unit_def
      example_blob_def VERSION_def)

section \<open>Linking: resolution of extern stubs\<close>

lemma uniq_loop_fresh: "\<not> scope_contains (uniq_loop hint s i) s"
proof (induction hint s i rule: uniq_loop.induct)
  case (1 hint s i)
  show ?case
  proof (cases "scope_contains (hint @ string_of_nat i) s")
    case True
    with 1 show ?thesis by (subst uniq_loop.simps) simp
  next
    case False
    then show ?thesis by (subst uniq_loop.simps) simp
  qed
qed

lemma uniq_name_fresh: "\<not> scope_contains (uniq_name hint s) s"
  by (simp add: uniq_name_def uniq_loop_fresh)

lemma not_contains_map_of: "\<not> scope_contains k s \<Longrightarrow> map_of (items s) k = None"
  by (cases s) (auto simp add: map_of_eq_None_iff split: if_splits)

lemma items_scope_setitem:
  "map_of (items (scope_setitem k v s)) = (map_of (items s))(k \<mapsto> v)"
  by (simp add: scope_setitem_def update_conv')

lemma generate_name_binding:
  "map_of (items (generate_name nm v s)) =
     (map_of (items s))(uniq_name nm s \<mapsto> v)"
  by (simp add: generate_name_def uniq_def Let_def items_scope_setitem)

lemma generate_name_visible:
  "\<not> is_visible_function v \<Longrightarrow> visible_binding (generate_name nm v s) = visible_binding s"
proof
  fix n assume nv: "\<not> is_visible_function v"
  have "map_of (items s) (uniq_name nm s) = None"
    using uniq_name_fresh by (rule not_contains_map_of)
  with nv show "visible_binding (generate_name nm v s) n = visible_binding s n"
    by (simp add: visible_binding_def generate_name_binding)
qed

lemma generate_name_keys:
  "map_of (items s) n \<noteq> None \<Longrightarrow> map_of (items (generate_name nm v s)) n \<noteq> None"
  by (simp add: generate_name_binding)

lemma store_Inr:
  assumes "store nm v s = Inr s'"
  shows "s' = scope_setitem nm v s \<and> map_of (items s) nm = None"
  using assms
  by (auto simp add: store_def contains_no_parent_def map_of_eq_None_iff split: if_splits)

lemma store_visible:
  assumes "store nm v s = Inr s'" and "is_visible_function v"
  shows "visible_binding s' = (visible_binding s)(nm \<mapsto> v)"
    and "map_of (items s) nm = None"
  using store_Inr [OF assms(1)] assms(2)
  by (auto simp add: visible_binding_def items_scope_setitem)

lemma bucket_append_bucket:
  "bucket (bucket_append k v d) n = (if n = k then bucket d k @ [v] else bucket d n)"
  by (simp add: bucket_def bucket_append_def update_conv')

lemma bucket_append_keys:
  "(map_of (bucket_append k v d) n = None) = (n \<noteq> k \<and> map_of d n = None)"
  by (simp add: bucket_append_def update_conv')

lemma bucket_append_distinct:
  "distinct (map fst d) \<Longrightarrow> distinct (map fst (bucket_append k v d))"
  by (simp add: bucket_append_def distinct_update)

lemma scan_items_Cons_cases:
  assumes "scan_items tp ((nm, var) # rest) st = Inr st'"
  obtains
    (extern) e where "var = ExternFunctionRef e"
      and "scan_items tp rest (st\<lparr>externs := bucket_append nm e (externs st)\<rparr>) = Inr st'"
  | (genuine) m s where "var = IRFunctionRef m"
      and "store nm (IRFunctionRef m) (top_scope (out st)) = Inr s"
      and "scan_items tp rest
                   (st\<lparr>out := (out st)\<lparr>top_scope := s,
                                        funcs := (funcs (out st))(m := funcs tp m)\<rparr>,
                       all_blocks := all_blocks st @ blocks (funcs tp m)\<rparr>) = Inr st'"
  | (other) "\<not> is_visible_function var" and "genuine_in ((nm, var) # rest) = genuine_in rest"
      and "stubs_in ((nm, var) # rest) = stubs_in rest"
      and "genuine_names ((nm, var) # rest) = genuine_names rest"
      and "scan_items tp rest
            (st\<lparr>out := (out st)\<lparr>top_scope := generate_name nm var (top_scope (out st))\<rparr>\<rparr>) = Inr st'"
proof (cases var)
  case (ExternFunctionRef e)
  with assms extern show ?thesis by simp
next
  case (IRFunctionRef m)
  with assms genuine show ?thesis by (auto elim: bind_err_Inr)
qed (use assms other in \<open>auto simp add: fun_eq_iff\<close>)

lemma scan_items_externs:
  "scan_items tp its st = Inr st' \<Longrightarrow>
     bucket (externs st') n = bucket (externs st) n @ stubs_in its n
   \<and> ((map_of (externs st') n = None) = (map_of (externs st) n = None \<and> stubs_in its n = []))
   \<and> (distinct (map fst (externs st)) \<longrightarrow> distinct (map fst (externs st')))"
proof (induction its arbitrary: st)
  case Nil
  then show ?case by simp
next
  case (Cons a its)
  obtain nm var where a: "a = (nm, var)" by (cases a)
  from Cons.prems [unfolded a] show ?case
  proof (cases rule: scan_items_Cons_cases)
    case (extern e)
    from Cons.IH [OF extern(2)] extern(1) a show ?thesis
      by (auto simp add: bucket_append_bucket bucket_append_keys bucket_append_distinct)
  next
    case (genuine m s)
    from Cons.IH [OF genuine(3)] genuine(1) a show ?thesis by simp
  next
    case other
    from Cons.IH [OF other(5)] other(3) a show ?thesis by simp
  qed
qed

lemma scan_items_keys:
  "scan_items tp its st = Inr st' \<Longrightarrow> map_of (items (top_scope (out st))) n \<noteq> None \<Longrightarrow>
   genuine_in its n = [] \<and> map_of (items (top_scope (out st'))) n \<noteq> None"
proof (induction its arbitrary: st)
  case Nil
  then show ?case by simp
next
  case (Cons a its)
  obtain nm var where a: "a = (nm, var)" by (cases a)
  from Cons.prems(1) [unfolded a] show ?case
  proof (cases rule: scan_items_Cons_cases)
    case (extern e)
    from Cons.IH [OF extern(2)] Cons.prems(2) extern(1) a show ?thesis by simp
  next
    case (genuine m s)
    from store_Inr [OF genuine(2)] have s: "s = scope_setitem nm (IRFunctionRef m) (top_scope (out st))"
      and fresh: "map_of (items (top_scope (out st))) nm = None" by simp_all
    from fresh Cons.prems(2) have ne: "nm \<noteq> n" by auto
    have "map_of (items s) n \<noteq> None"
      using Cons.prems(2) s by (simp add: items_scope_setitem)
    with Cons.IH [OF genuine(3)] genuine(1) a ne show ?thesis by simp
  next
    case other
    have "map_of (items (generate_name nm var (top_scope (out st)))) n \<noteq> None"
      using Cons.prems(2) by (rule generate_name_keys)
    with Cons.IH [OF other(5)] other(2) a show ?thesis by simp
  qed
qed

lemma scan_items_visible:
  "scan_items tp its st = Inr st' \<Longrightarrow>
     visible_binding (top_scope (out st')) n =
       (case genuine_in its n of
          [] \<Rightarrow> visible_binding (top_scope (out st)) n
        | m # ms \<Rightarrow> Some (IRFunctionRef m))
   \<and> length (genuine_in its n) \<le> 1"
proof (induction its arbitrary: st)
  case Nil
  then show ?case by simp
next
  case (Cons a its)
  obtain nm var where a: "a = (nm, var)" by (cases a)
  from Cons.prems(1) [unfolded a] show ?case
  proof (cases rule: scan_items_Cons_cases)
    case (extern e)
    from Cons.IH [OF extern(2)] extern(1) a show ?thesis by (simp split: list.splits)
  next
    case (genuine m s)
    let ?st1 = "st\<lparr>out := (out st)\<lparr>top_scope := s,
                                        funcs := (funcs (out st))(m := funcs tp m)\<rparr>,
                       all_blocks := all_blocks st @ blocks (funcs tp m)\<rparr>"
    from store_visible [OF genuine(2)]
    have v: "visible_binding s = (visible_binding (top_scope (out st)))(nm \<mapsto> IRFunctionRef m)"
      by simp
    from store_Inr [OF genuine(2)] have "map_of (items s) nm \<noteq> None"
      by (simp add: items_scope_setitem)
    then have "map_of (items (top_scope (out ?st1))) nm \<noteq> None" by simp
    from scan_items_keys [OF genuine(3) this] have g: "genuine_in its nm = []" by simp
    from Cons.IH [OF genuine(3), of ] have ih:
      "visible_binding (top_scope (out st')) n =
       (case genuine_in its n of
          [] \<Rightarrow> visible_binding s n
        | m # ms \<Rightarrow> Some (IRFunctionRef m))" "length (genuine_in its n) \<le> 1"
      by (simp_all split: list.splits)
    show ?thesis
    proof (cases "nm = n")
      case True
      with ih g v genuine(1) a show ?thesis by (simp split: list.splits)
    next
      case False
      with ih v genuine(1) a show ?thesis by (simp split: list.splits)
    qed
  next
    case other
    from Cons.IH [OF other(5)] other(1,2) a show ?thesis
      by (simp add: generate_name_visible split: list.splits)
  qed
qed

lemma scan_items_blocks:
  "scan_items tp its st = Inr st' \<Longrightarrow>
     all_blocks st' = all_blocks st @ concat (map (\<lambda>m. blocks (funcs tp m)) (genuine_names its))
   \<and> (\<forall>m. funcs (out st') m =
         (if m \<in> set (genuine_names its) then funcs tp m else funcs (out st) m))"
proof (induction its arbitrary: st)
  case Nil
  then show ?case by simp
next
  case (Cons a its)
  obtain nm var where a: "a = (nm, var)" by (cases a)
  from Cons.prems(1) [unfolded a] show ?case
  proof (cases rule: scan_items_Cons_cases)
    case (extern e)
    from Cons.IH [OF extern(2)] extern(1) a show ?thesis by simp
  next
    case (genuine m s)
    from Cons.IH [OF genuine(3)] genuine(1) a show ?thesis by simp
  next
    case other
    from Cons.IH [OF other(5)] other(4) a show ?thesis by simp
  qed
qed

lemma stubs_in_append: "stubs_in (xs @ ys) n = stubs_in xs n @ stubs_in ys n"
  by (induction xs n rule: stubs_in.induct) simp_all

lemma genuine_in_append: "genuine_in (xs @ ys) n = genuine_in xs n @ genuine_in ys n"
  by (induction xs n rule: genuine_in.induct) simp_all

lemma genuine_names_append: "genuine_names (xs @ ys) = genuine_names xs @ genuine_names ys"
  by (induction xs rule: genuine_names.induct) simp_all

lemma scan_items_parent:
  "scan_items tp its st = Inr st' \<Longrightarrow> parent (top_scope (out st')) = parent (top_scope (out st))"
proof (induction its arbitrary: st)
  case Nil
  then show ?case by simp
next
  case (Cons a its)
  obtain nm var where a: "a = (nm, var)" by (cases a)
  from Cons.prems(1) [unfolded a] show ?case
  proof (cases rule: scan_items_Cons_cases)
    case (extern e)
    from Cons.IH [OF extern(2)] show ?thesis by simp
  next
    case (genuine m s)
    from store_Inr [OF genuine(2)] Cons.IH [OF genuine(3)] show ?thesis
      by (simp add: scope_setitem_def)
  next
    case other
    from Cons.IH [OF other(5)] show ?thesis
      by (simp add: generate_name_def uniq_def Let_def scope_setitem_def)
  qed
qed

lemma scan_top_Inr:
  assumes "scan_top tp st = Inr st'"
  obtains st1 where "scan_items tp (items (top_scope tp)) st1 = Inr st'"
    and "externs st1 = externs st" and "all_blocks st1 = all_blocks st"
    and "top_scope (out st1) = top_scope (out st)" and "funcs (out st1) = funcs (out st)"
    and "top_finished tp"
  using assms by (auto simp add: scan_top_def split: if_splits)

lemma scan_tops_externs:
  "scan_tops tops st = Inr st' \<Longrightarrow>
     bucket (externs st') n = bucket (externs st) n @ stubs_in (all_items tops) n
   \<and> ((map_of (externs st') n = None) =
        (map_of (externs st) n = None \<and> stubs_in (all_items tops) n = []))
   \<and> (distinct (map fst (externs st)) \<longrightarrow> distinct (map fst (externs st')))
   \<and> parent (top_scope (out st')) = parent (top_scope (out st))"
proof (induction tops arbitrary: st)
  case Nil
  then show ?case by (simp add: all_items_def)
next
  case (Cons tp tops)
  from Cons.prems obtain st2 where s2: "scan_top tp st = Inr st2"
    and r: "scan_tops tops st2 = Inr st'"
    by (auto elim: bind_err_Inr)
  from s2 obtain st1 where s1: "scan_items tp (items (top_scope tp)) st1 = Inr st2"
    and e: "externs st1 = externs st" "top_scope (out st1) = top_scope (out st)"
    by (rule scan_top_Inr)
  from scan_items_externs [OF s1, of n] scan_items_parent [OF s1] Cons.IH [OF r] e
  show ?case
    by (simp add: all_items_def stubs_in_append)
qed

lemma scan_tops_keys:
  "scan_tops tops st = Inr st' \<Longrightarrow> map_of (items (top_scope (out st))) n \<noteq> None \<Longrightarrow>
   genuine_in (all_items tops) n = [] \<and> map_of (items (top_scope (out st'))) n \<noteq> None"
proof (induction tops arbitrary: st)
  case Nil
  then show ?case by (simp add: all_items_def)
next
  case (Cons tp tops)
  from Cons.prems(1) obtain st2 where s2: "scan_top tp st = Inr st2"
    and r: "scan_tops tops st2 = Inr st'"
    by (auto elim: bind_err_Inr)
  from s2 obtain st1 where s1: "scan_items tp (items (top_scope tp)) st1 = Inr st2"
    and e: "top_scope (out st1) = top_scope (out st)"
    by (rule scan_top_Inr)
  from scan_items_keys [OF s1, of n] Cons.prems(2) e
  have k: "genuine_in (items (top_scope tp)) n = []" "map_of (items (top_scope (out st2))) n \<noteq> None"
    by simp_all
  from Cons.IH [OF r k(2)] k(1) show ?case
    by (simp add: all_items_def genuine_in_append)
qed

lemma visible_binding_key:
  "visible_binding s n = Some v \<Longrightarrow> map_of (items s) n = Some v"
  by (auto simp add: visible_binding_def split: option.splits if_splits)

lemma scan_tops_visible:
  "scan_tops tops st = Inr st' \<Longrightarrow>
     visible_binding (top_scope (out st')) n =
       (case genuine_in (all_items tops) n of
          [] \<Rightarrow> visible_binding (top_scope (out st)) n
        | m # ms \<Rightarrow> Some (IRFunctionRef m))
   \<and> length (genuine_in (all_items tops) n) \<le> 1"
proof (induction tops arbitrary: st)
  case Nil
  then show ?case by (simp add: all_items_def)
next
  case (Cons tp tops)
  from Cons.prems(1) obtain st2 where s2: "scan_top tp st = Inr st2"
    and r: "scan_tops tops st2 = Inr st'"
    by (auto elim: bind_err_Inr)
  from s2 obtain st1 where s1: "scan_items tp (items (top_scope tp)) st1 = Inr st2"
    and e: "top_scope (out st1) = top_scope (out st)"
    by (rule scan_top_Inr)
  let ?g1 = "genuine_in (items (top_scope tp)) n"
  let ?g2 = "genuine_in (all_items tops) n"
  from scan_items_visible [OF s1, of n] e
  have v1: "visible_binding (top_scope (out st2)) n =
       (case ?g1 of [] \<Rightarrow> visible_binding (top_scope (out st)) n
        | m # ms \<Rightarrow> Some (IRFunctionRef m))" and l1: "length ?g1 \<le> 1"
    by (simp_all split: list.splits)
  from Cons.IH [OF r]
  have v2: "visible_binding (top_scope (out st')) n =
       (case ?g2 of [] \<Rightarrow> visible_binding (top_scope (out st2)) n
        | m # ms \<Rightarrow> Some (IRFunctionRef m))" and l2: "length ?g2 \<le> 1"
    by simp_all
  have g: "genuine_in (all_items (tp # tops)) n = ?g1 @ ?g2"
    by (simp add: all_items_def genuine_in_append)
  show ?case
  proof (cases ?g1)
    case Nil
    with v1 v2 l2 g show ?thesis by (simp split: list.splits)
  next
    case (Cons m ms)
    with v1 have "visible_binding (top_scope (out st2)) n = Some (IRFunctionRef m)" by simp
    then have "map_of (items (top_scope (out st2))) n \<noteq> None"
      by (simp add: visible_binding_key)
    from scan_tops_keys [OF r this] have "?g2 = []" by simp
    with Cons v1 v2 l1 g show ?thesis by simp
  qed
qed

lemma scan_tops_blocks:
  "scan_tops tops st = Inr st' \<Longrightarrow>
     all_blocks st' = all_blocks st
       @ concat (map (\<lambda>tp. concat (map (\<lambda>m. blocks (funcs tp m))
                                      (genuine_names (items (top_scope tp))))) tops)
   \<and> (\<forall>m. m \<notin> set (genuine_names (all_items tops)) \<longrightarrow> funcs (out st') m = funcs (out st) m)"
proof (induction tops arbitrary: st)
  case Nil
  then show ?case by (simp add: all_items_def)
next
  case (Cons tp tops)
  from Cons.prems(1) obtain st2 where s2: "scan_top tp st = Inr st2"
    and r: "scan_tops tops st2 = Inr st'"
    by (auto elim: bind_err_Inr)
  from s2 obtain st1 where s1: "scan_items tp (items (top_scope tp)) st1 = Inr st2"
    and e: "all_blocks st1 = all_blocks st" "funcs (out st1) = funcs (out st)"
    by (rule scan_top_Inr)
  from scan_items_blocks [OF s1] Cons.IH [OF r] e show ?case
    by (simp add: all_items_def genuine_names_append)
qed

lemma wf_genuine_names:
  "list_all wf_entry its \<Longrightarrow> m \<in> set (genuine_names its) \<Longrightarrow> genuine_in its m \<noteq> []"
  by (induction its rule: genuine_names.induct) auto

lemma wf_genuine_in:
  "list_all wf_entry its \<Longrightarrow> m \<in> set (genuine_in its n) \<Longrightarrow> m = n"
  by (induction its n rule: genuine_in.induct) (auto split: if_splits)

lemma wf_stubs_in:
  "list_all wf_entry its \<Longrightarrow> e \<in> set (stubs_in its n) \<Longrightarrow> gname e = n"
  by (induction its n rule: stubs_in.induct) (auto split: if_splits)

lemma genuine_names_all_items:
  "(m \<in> set (genuine_names (all_items tops))) =
   (\<exists>t \<in> set tops. m \<in> set (genuine_names (items (top_scope t))))"
  by (induction tops) (auto simp add: all_items_def genuine_names_append)

lemma genuine_in_all_items:
  "(m \<in> set (genuine_in (all_items tops) n)) =
   (\<exists>t \<in> set tops. m \<in> set (genuine_in (items (top_scope t)) n))"
  by (induction tops) (auto simp add: all_items_def genuine_in_append)

lemma stubs_in_all_items:
  "(e \<in> set (stubs_in (all_items tops) n)) =
   (\<exists>t \<in> set tops. e \<in> set (stubs_in (items (top_scope t)) n))"
  by (induction tops) (auto simp add: all_items_def stubs_in_append)

lemma wf_all_items:
  "\<forall>tp \<in> set tops. wf_unit tp \<Longrightarrow> list_all wf_entry (all_items tops)"
  by (induction tops) (auto simp add: all_items_def wf_unit_def)

lemma scan_tops_funcs:
  "scan_tops tops st = Inr st' \<Longrightarrow> \<forall>tp \<in> set tops. wf_unit tp \<Longrightarrow>
   tp \<in> set tops \<Longrightarrow> m \<in> set (genuine_names (items (top_scope tp))) \<Longrightarrow>
   funcs (out st') m = funcs tp m"
proof (induction tops arbitrary: st)
  case Nil
  then show ?case by simp
next
  case (Cons t0 tops)
  from Cons.prems(1) obtain st2 where s2: "scan_top t0 st = Inr st2"
    and r: "scan_tops tops st2 = Inr st'"
    by (auto elim: bind_err_Inr)
  show ?case
  proof (cases "tp \<in> set tops")
    case True
    with Cons.IH [OF r] Cons.prems show ?thesis by simp
  next
    case False
    with Cons.prems(3) have tp: "tp = t0" by simp
    from s2 obtain st1 where s1: "scan_items t0 (items (top_scope t0)) st1 = Inr st2"
      by (rule scan_top_Inr)
    from scan_items_blocks [OF s1] Cons.prems(4) tp
    have f2: "funcs (out st2) m = funcs t0 m" by simp
    from Cons.prems(2) have wf0: "list_all wf_entry (items (top_scope t0))"
      by (simp add: wf_unit_def)
    from wf_genuine_names [OF wf0] Cons.prems(4) tp
    have "genuine_in (items (top_scope t0)) m \<noteq> []" by simp
    with scan_items_visible [OF s1, of m]
    have "visible_binding (top_scope (out st2)) m \<noteq> None"
      by (simp split: list.splits)
    then have "map_of (items (top_scope (out st2))) m \<noteq> None"
      by (auto simp add: visible_binding_def split: option.splits)
    from scan_tops_keys [OF r this] have g: "genuine_in (all_items tops) m = []" by simp
    have "m \<notin> set (genuine_names (all_items tops))"
    proof
      assume "m \<in> set (genuine_names (all_items tops))"
      moreover have "list_all wf_entry (all_items tops)"
        using Cons.prems(2) by (intro wf_all_items) simp
      ultimately have "genuine_in (all_items tops) m \<noteq> []"
        by (intro wf_genuine_names)
      with g show False by simp
    qed
    with scan_tops_blocks [OF r] have "funcs (out st') m = funcs (out st2) m" by simp
    with f2 tp show ?thesis by simp
  qed
qed

lemma lookup_no_parent:
  "parent s = None \<Longrightarrow> lookup nm s = Inr (map_of (items s) nm)"
proof (cases s)
  case (Scope its ivd par)
  assume "parent s = None"
  with Scope have p: "par = None" by simp
  show ?thesis
  proof (cases "map_of its nm")
    case None
    then have "nm \<notin> set (map fst its)" by (simp add: map_of_eq_None_iff)
    with Scope p None show ?thesis by (simp add: lookup_def)
  next
    case (Some v)
    then have "nm \<in> set (map fst its)"
      by (metis map_of_eq_None_iff option.distinct(1) set_map)
    with Scope p Some show ?thesis by (simp add: lookup_def)
  qed
qed

lemma lookup_func_Inr:
  assumes "parent (top_scope t) = None" and "lookup_func nm t = Inr c"
  shows "c = visible_binding (top_scope t) nm"
    and "c = None \<longrightarrow> map_of (items (top_scope t)) nm = None"
proof -
  from assms(1) have l: "lookup nm (top_scope t) = Inr (map_of (items (top_scope t)) nm)"
    by (rule lookup_no_parent)
  define found where "found = map_of (items (top_scope t)) nm"
  have f: "lookup_func nm t =
      (case found of None \<Rightarrow> Inr None
       | Some v \<Rightarrow> if is_visible_function v then Inr (Some v) else Inl (AssertionError []))"
    by (simp add: lookup_func_def l bind_err_def found_def)
  have v: "visible_binding (top_scope t) nm =
      (case found of None \<Rightarrow> None
       | Some v \<Rightarrow> if is_visible_function v then Some v else None)"
    by (simp add: visible_binding_def found_def split: option.splits)
  show "c = visible_binding (top_scope t) nm"
    using assms(2) unfolding f v by (cases found) (auto split: if_splits)
  show "c = None \<longrightarrow> map_of (items (top_scope t)) nm = None"
    using assms(2) unfolding f found_def [symmetric] by (cases found) (auto split: if_splits)
qed

lemma extern_expect_signature_Inr:
  assumes "extern_expect_signature e r t = Inr t'"
  shows "top_scope t' = top_scope t"
    and "basic_blocks (funcs t' m) = basic_blocks (funcs t m)"
    and "r = ExternFunctionRef other \<longrightarrow>
           ext_params e = ext_params other \<and> ext_returns e = ext_returns other"
  using assms
  by (cases r; auto simp add: Let_def extern_finished_def split: if_splits)+

lemma check_externs_Inr:
  "check_externs r es (t, mp) = Inr (t', mp') \<Longrightarrow>
     top_scope t' = top_scope t
   \<and> (\<forall>m. basic_blocks (funcs t' m) = basic_blocks (funcs t m))
   \<and> (\<forall>other. r = ExternFunctionRef other \<longrightarrow>
         (\<forall>e \<in> set es. ext_params e = ext_params other \<and> ext_returns e = ext_returns other))
   \<and> (\<forall>a. map_of mp' a =
         (if (\<exists>e \<in> set es. a = ExternFunctionRef e) \<and> a \<noteq> r then Some r else map_of mp a))"
proof (induction es arbitrary: t mp)
  case Nil
  then show ?case by simp
next
  case (Cons e es)
  let ?mp1 = "if r \<noteq> ExternFunctionRef e then AList.update (ExternFunctionRef e) r mp else mp"
  from Cons.prems obtain t1 where t1: "extern_expect_signature e r t = Inr t1"
    and rest: "check_externs r es (t1, ?mp1) = Inr (t', mp')"
    by (auto elim: bind_err_Inr)
  note ih = Cons.IH [OF rest]
  note st = extern_expect_signature_Inr [OF t1]
  have m1: "map_of ?mp1 a =
      (if a = ExternFunctionRef e \<and> a \<noteq> r then Some r else map_of mp a)" for a
    by (auto simp add: update_conv')
  show ?case
  proof (intro conjI allI impI ballI)
    show "top_scope t' = top_scope t" using ih st(1) by simp
    show "basic_blocks (funcs t' m) = basic_blocks (funcs t m)" for m
      using ih st(2) by simp
    show "ext_params x = ext_params other" if "r = ExternFunctionRef other" "x \<in> set (e # es)"
      for other x using that ih st(3) by auto
    show "ext_returns x = ext_returns other" if "r = ExternFunctionRef other" "x \<in> set (e # es)"
      for other x using that ih st(3) by auto
    show "map_of mp' a =
         (if (\<exists>e \<in> set (e # es). a = ExternFunctionRef e) \<and> a \<noteq> r then Some r else map_of mp a)"
      for a
    proof -
      from ih have "map_of mp' a =
         (if (\<exists>e \<in> set es. a = ExternFunctionRef e) \<and> a \<noteq> r then Some r else map_of ?mp1 a)"
        by blast
      then show ?thesis unfolding m1 by auto
    qed
  qed
qed

lemma bucket_Cons:
  "bucket ((nm, es) # rest) n = (if n = nm then es else bucket rest n)"
  by (simp add: bucket_def)

lemma bucket_absent:
  assumes "n \<notin> fst ` set d"
  shows "bucket d n = []"
proof -
  from assms have "map_of d n = None" by (simp add: map_of_eq_None_iff)
  then show ?thesis by (simp add: bucket_def)
qed

lemma store_parent: "store nm v s = Inr s' \<Longrightarrow> parent s' = parent s"
  by (auto simp add: store_def scope_setitem_def split: if_splits)

lemma resolve_externs_Inr:
  "resolve_externs d (t, mp) = Inr (t', mp') \<Longrightarrow> parent (top_scope t) = None \<Longrightarrow>
   distinct (map fst d) \<Longrightarrow> (\<forall>(n, es) \<in> set d. \<forall>e \<in> set es. gname e = n) \<Longrightarrow>
     parent (top_scope t') = None
   \<and> (\<forall>n. visible_binding (top_scope t') n =
          (if n \<in> fst ` set d then Some (replacement_for (top_scope t) d n)
           else visible_binding (top_scope t) n))
   \<and> (\<forall>m. basic_blocks (funcs t' m) = basic_blocks (funcs t m))
   \<and> (\<forall>n e. visible_binding (top_scope t) n = None \<longrightarrow> e \<in> set (bucket d n) \<longrightarrow>
          ext_params e = ext_params (hd (bucket d n))
          \<and> ext_returns e = ext_returns (hd (bucket d n)))
   \<and> (\<forall>e. map_of mp' (ExternFunctionRef e) =
          (if e \<in> set (bucket d (gname e))
              \<and> replacement_for (top_scope t) d (gname e) \<noteq> ExternFunctionRef e
           then Some (replacement_for (top_scope t) d (gname e))
           else map_of mp (ExternFunctionRef e)))
   \<and> (\<forall>a. \<not> is_extern_function a \<longrightarrow> map_of mp' a = map_of mp a)"
proof (induction d arbitrary: t mp)
  case Nil
  then show ?case by (simp add: bucket_def)
next
  case (Cons p rest)
  obtain nm es where p: "p = (nm, es)" by (cases p)
  from Cons.prems(3) p have fresh: "nm \<notin> fst ` set rest" and dist: "distinct (map fst rest)"
    by auto
  from Cons.prems(4) p have wf_es: "\<forall>e \<in> set es. gname e = nm"
    and wf_rest: "\<forall>(n, es) \<in> set rest. \<forall>e \<in> set es. gname e = n"
    by auto
  from Cons.prems(1) p obtain new others where es: "es = new # others"
    by (cases es) auto
  let ?rp = "\<lambda>c. (case c of Some v \<Rightarrow> v | None \<Rightarrow> ExternFunctionRef new)"
  have eq: "resolve_externs (p # rest) (t, mp) =
      bind_err (lookup_func nm t) (\<lambda>concrete.
        bind_err (check_externs (?rp concrete) es (t, mp)) (\<lambda>(t1, mapping1).
          bind_err
            (if concrete = None then
               bind_err (store nm (ExternFunctionRef new) (top_scope t1))
                 (\<lambda>s. Inr (t1\<lparr>top_scope := s\<rparr>))
             else Inr t1)
            (\<lambda>t2. resolve_externs rest (t2, mapping1))))"
    using p es by (simp add: Let_def del: check_externs.simps)
  from Cons.prems(1) [unfolded eq] obtain c where c: "lookup_func nm t = Inr c"
    and k1: "bind_err (check_externs (?rp c) es (t, mp)) (\<lambda>(t1, mapping1).
          bind_err
            (if c = None then
               bind_err (store nm (ExternFunctionRef new) (top_scope t1))
                 (\<lambda>s. Inr (t1\<lparr>top_scope := s\<rparr>))
             else Inr t1)
            (\<lambda>t2. resolve_externs rest (t2, mapping1))) = Inr (t', mp')"
    by (rule bind_err_Inr)
  from k1 obtain x where cx: "check_externs (?rp c) es (t, mp) = Inr x"
    and kx: "(case x of (t1, mapping1) \<Rightarrow>
          bind_err
            (if c = None then
               bind_err (store nm (ExternFunctionRef new) (top_scope t1))
                 (\<lambda>s. Inr (t1\<lparr>top_scope := s\<rparr>))
             else Inr t1)
            (\<lambda>t2. resolve_externs rest (t2, mapping1))) = Inr (t', mp')"
    by (rule bind_err_Inr)
  obtain t1 mp1 where x: "x = (t1, mp1)" by (cases x)
  from cx x have ce: "check_externs (?rp c) es (t, mp) = Inr (t1, mp1)" by simp
  from kx x have k2: "bind_err
            (if c = None then
               bind_err (store nm (ExternFunctionRef new) (top_scope t1))
                 (\<lambda>s. Inr (t1\<lparr>top_scope := s\<rparr>))
             else Inr t1)
            (\<lambda>t2. resolve_externs rest (t2, mp1)) = Inr (t', mp')"
    by simp
  from k2 obtain t2 where t2: "(if c = None then
               bind_err (store nm (ExternFunctionRef new) (top_scope t1))
                 (\<lambda>s. Inr (t1\<lparr>top_scope := s\<rparr>))
             else Inr t1) = Inr t2"
    and rr: "resolve_externs rest (t2, mp1) = Inr (t', mp')"
    by (rule bind_err_Inr)
  note lf = lookup_func_Inr [OF Cons.prems(2) c]
  note ck = check_externs_Inr [OF ce]
  have rp: "?rp c = replacement_for (top_scope t) (p # rest) nm"
    using lf(1) p es by (simp add: replacement_for_def bucket_Cons split: option.splits)
  have s1: "top_scope t1 = top_scope t" using ck by simp
  have vb2: "visible_binding (top_scope t2) n =
      (if n = nm then Some (?rp c) else visible_binding (top_scope t) n)" for n
  proof (cases c)
    case None
    with t2 obtain s where s: "store nm (ExternFunctionRef new) (top_scope t1) = Inr s"
      and "t2 = t1\<lparr>top_scope := s\<rparr>"
      by (auto elim!: bind_err_Inr)
    with store_visible(1) [OF s] s1 None show ?thesis by simp
  next
    case (Some v)
    with t2 have "t2 = t1" by simp
    with s1 Some lf(1) show ?thesis by simp
  qed
  have par2: "parent (top_scope t2) = None"
  proof (cases c)
    case None
    with t2 obtain s where s: "store nm (ExternFunctionRef new) (top_scope t1) = Inr s"
      and "t2 = t1\<lparr>top_scope := s\<rparr>"
      by (auto elim!: bind_err_Inr)
    with store_parent [OF s] s1 Cons.prems(2) show ?thesis by simp
  next
    case (Some v)
    with t2 s1 Cons.prems(2) show ?thesis by simp
  qed
  have bb2: "basic_blocks (funcs t2 m) = basic_blocks (funcs t m)" for m
    using t2 ck by (cases c) (auto elim!: bind_err_Inr)
  note ih = Cons.IH [OF rr par2 dist wf_rest]
  have rf: "replacement_for (top_scope t2) rest n = replacement_for (top_scope t) (p # rest) n"
    if "n \<noteq> nm" for n
    using that vb2 [of n] p by (simp add: replacement_for_def bucket_Cons split: option.splits)
  have bk: "bucket (p # rest) n = (if n = nm then es else bucket rest n)" for n
    using p by (simp add: bucket_Cons)
  have b0: "bucket rest nm = []" using fresh by (rule bucket_absent)
  have c1: "parent (top_scope t') = None" using ih by simp
  have c2: "visible_binding (top_scope t') n =
          (if n \<in> fst ` set (p # rest) then Some (replacement_for (top_scope t) (p # rest) n)
           else visible_binding (top_scope t) n)" for n
  proof (cases "n = nm")
    case True
    with ih fresh have "visible_binding (top_scope t') n = visible_binding (top_scope t2) n"
      by simp
    with True vb2 [of n] rp p show ?thesis by simp
  next
    case False
    with ih vb2 [of n] rf [of n] p show ?thesis by auto
  qed
  have c3: "basic_blocks (funcs t' m) = basic_blocks (funcs t m)" for m
    using ih bb2 by simp
  have c4: "ext_params e = ext_params (hd (bucket (p # rest) n))
          \<and> ext_returns e = ext_returns (hd (bucket (p # rest) n))"
    if vn: "visible_binding (top_scope t) n = None" and e: "e \<in> set (bucket (p # rest) n)"
    for n e
  proof (cases "n = nm")
    case True
    with vn lf(1) have "c = None" by simp
    then have "?rp c = ExternFunctionRef new" by simp
    with ck e True bk [of n] es show ?thesis by auto
  next
    case False
    with vn vb2 [of n] have "visible_binding (top_scope t2) n = None" by simp
    with ih e False bk [of n] show ?thesis by auto
  qed
  have c5: "map_of mp' (ExternFunctionRef e) =
          (if e \<in> set (bucket (p # rest) (gname e))
              \<and> replacement_for (top_scope t) (p # rest) (gname e) \<noteq> ExternFunctionRef e
           then Some (replacement_for (top_scope t) (p # rest) (gname e))
           else map_of mp (ExternFunctionRef e))" for e
  proof -
    let ?a = "ExternFunctionRef e"
    from ih have i5: "map_of mp' ?a =
          (if e \<in> set (bucket rest (gname e))
              \<and> replacement_for (top_scope t2) rest (gname e) \<noteq> ?a
           then Some (replacement_for (top_scope t2) rest (gname e))
           else map_of mp1 ?a)"
      by blast
    from ck have m1: "map_of mp1 ?a =
         (if e \<in> set es \<and> ?a \<noteq> ?rp c then Some (?rp c) else map_of mp ?a)"
      by auto
    show ?thesis
    proof (cases "gname e = nm")
      case True
      with i5 b0 have "map_of mp' ?a = map_of mp1 ?a" by simp
      with m1 True bk [of nm] rp show ?thesis by auto
    next
      case False
      with wf_es have "e \<notin> set es" by auto
      with m1 have "map_of mp1 ?a = map_of mp ?a" by simp
      with i5 False rf [of "gname e"] bk [of "gname e"] show ?thesis by auto
    qed
  qed
  have c6: "map_of mp' a = map_of mp a" if na: "\<not> is_extern_function a" for a
  proof -
    from na have "\<not> (\<exists>e \<in> set es. a = ExternFunctionRef e)" by auto
    with ck have "map_of mp1 a = map_of mp a" by simp
    with ih na show ?thesis by simp
  qed
  from c1 c2 c3 c4 c5 c6 show ?case by blast
qed

lemma block_apply_mapping_insns:
  "insns (basic_blocks (funcs (block_apply_mapping k mp b t) fn) n) =
     (if b = BasicBlockRef fn n then apply_mapping k mp (insns (basic_blocks (funcs t fn) n))
      else insns (basic_blocks (funcs t fn) n))"
  by (cases b) (auto simp add: Let_def)

lemma block_apply_mapping_scope [simp]:
  "top_scope (block_apply_mapping k mp b t) = top_scope t"
  "top_finished (block_apply_mapping k mp b t) = top_finished t"
  by (cases b; simp add: Let_def)+

lemma block_apply_mapping_finished [simp]:
  "finished (funcs (block_apply_mapping k mp b t) m) = finished (funcs t m)"
  by (cases b) (auto simp add: Let_def)

lemma apply_mapping_idem:
  assumes "\<And>a. map_arg k mp (map_arg k mp a) = map_arg k mp a"
  shows "apply_mapping k mp (apply_mapping k mp is) = apply_mapping k mp is"
  using assms by (simp add: apply_mapping_def comp_def)

lemma fold_block_apply_mapping:
  assumes idem: "\<And>a. map_arg k mp (map_arg k mp a) = map_arg k mp a"
  shows "insns (basic_blocks (funcs (fold (block_apply_mapping k mp) bs t) fn) n) =
     (if BasicBlockRef fn n \<in> set bs then apply_mapping k mp (insns (basic_blocks (funcs t fn) n))
      else insns (basic_blocks (funcs t fn) n))"
proof (induction bs arbitrary: t)
  case Nil
  then show ?case by simp
next
  case (Cons b bs)
  show ?case
    using Cons.IH [of "block_apply_mapping k mp b t"] apply_mapping_idem [OF idem]
    by (simp add: block_apply_mapping_insns)
qed

lemma fold_block_apply_mapping_scope [simp]:
  "top_scope (fold (block_apply_mapping k mp) bs t) = top_scope t"
  "top_finished (fold (block_apply_mapping k mp) bs t) = top_finished t"
  by (induction bs arbitrary: t) simp_all

lemma apply_mapping_empty: "apply_mapping k [] is = is"
proof -
  have "map_arg k [] = (\<lambda>a. a)" by (simp add: map_arg_def fun_eq_iff)
  then show ?thesis by (simp add: apply_mapping_def map_idI)
qed

lemma visible_binding_init: "visible_binding (top_scope TopLevel_init) n = None"
  by (simp add: visible_binding_def TopLevel_init_def scope_setitem_def)

lemma parent_init: "parent (top_scope TopLevel_init) = None"
  by (simp add: TopLevel_init_def scope_setitem_def)

lemma top_end_Inr:
  "top_end t = Inr t' \<Longrightarrow> t' = t\<lparr>top_finished := True\<rparr>"
  by (auto simp add: top_end_def elim!: bind_err_Inr split: if_splits)

lemma reparent_frame [simp]:
  "top_scope (reparent t) = top_scope t"
  "basic_blocks (funcs (reparent t) m) = basic_blocks (funcs t m)"
  by (simp_all add: reparent_def)

lemma linker_Inr:
  assumes "linker tops = Inr merged" and "2 \<le> length tops"
  obtains st out1 mp where
    "scan_tops tops \<lparr>out = TopLevel_init, externs = [], all_blocks = []\<rparr> = Inr st"
    and "resolve_externs (externs st) (out st, []) = Inr (out1, mp)"
    and "merged = (reparent (if mp \<noteq> [] then
                     fold (block_apply_mapping is_extern_function mp) (all_blocks st) out1
                   else out1))\<lparr>top_finished := True\<rparr>"
proof -
  from assms(2) have ne: "tops \<noteq> []" "length tops \<noteq> 1" by auto
  with assms(1) have l: "bind_err (scan_tops tops \<lparr>out = TopLevel_init, externs = [], all_blocks = []\<rparr>)
          (\<lambda>st.
        bind_err (resolve_externs (externs st) (out st, []))
          (\<lambda>(out1, extern_mapping).
             let out2 = (if extern_mapping \<noteq> [] then
                           fold (block_apply_mapping is_extern_function extern_mapping)
                             (all_blocks st) out1
                         else out1)
             in top_end (reparent out2))) = Inr merged"
    by (simp add: linker_def)
  from l obtain st where st: "scan_tops tops \<lparr>out = TopLevel_init, externs = [], all_blocks = []\<rparr> = Inr st"
    and k: "bind_err (resolve_externs (externs st) (out st, []))
          (\<lambda>(out1, extern_mapping).
             let out2 = (if extern_mapping \<noteq> [] then
                           fold (block_apply_mapping is_extern_function extern_mapping)
                             (all_blocks st) out1
                         else out1)
             in top_end (reparent out2)) = Inr merged"
    by (rule bind_err_Inr)
  from k obtain x where x: "resolve_externs (externs st) (out st, []) = Inr x"
    and k2: "(case x of (out1, extern_mapping) \<Rightarrow>
             let out2 = (if extern_mapping \<noteq> [] then
                           fold (block_apply_mapping is_extern_function extern_mapping)
                             (all_blocks st) out1
                         else out1)
             in top_end (reparent out2)) = Inr merged"
    by (rule bind_err_Inr)
  obtain out1 mp where xp: "x = (out1, mp)" by (cases x)
  from k2 xp have "top_end (reparent (if mp \<noteq> [] then
                     fold (block_apply_mapping is_extern_function mp) (all_blocks st) out1
                   else out1)) = Inr merged"
    by (simp add: Let_def)
  from top_end_Inr [OF this] x xp st that show ?thesis by simp
qed

lemma resolved_genuine:
  "genuine_in (all_items tops) n = m # ms \<Longrightarrow> resolved tops n = IRFunctionRef m"
  by (simp add: resolved_def)

lemma resolved_stub:
  "genuine_in (all_items tops) n = [] \<Longrightarrow>
   resolved tops n = ExternFunctionRef (hd (stubs_in (all_items tops) n))"
  by (simp add: resolved_def)

lemma resolve_ref_idem:
  assumes wf: "list_all wf_entry (all_items tops)"
  shows "resolve_ref tops (resolve_ref tops a) = resolve_ref tops a"
proof (cases a)
  case (ExternFunctionRef e)
  let ?n = "gname e"
  show ?thesis
  proof (cases "e \<in> set (stubs_in (all_items tops) ?n)")
    case False
    with ExternFunctionRef show ?thesis by (simp add: resolve_ref_def)
  next
    case True
    then have r: "resolve_ref tops a = resolved tops ?n"
      using ExternFunctionRef by (simp add: resolve_ref_def)
    show ?thesis
    proof (cases "genuine_in (all_items tops) ?n")
      case (Cons m ms)
      with r show ?thesis by (simp add: resolved_def resolve_ref_def)
    next
      case Nil
      let ?e0 = "hd (stubs_in (all_items tops) ?n)"
      from True have "?e0 \<in> set (stubs_in (all_items tops) ?n)"
        by (cases "stubs_in (all_items tops) ?n") auto
      with wf_stubs_in [OF wf] have g: "gname ?e0 = ?n" and m: "?e0 \<in> set (stubs_in (all_items tops) (gname ?e0))"
        by simp_all
      from r Nil have r2: "resolve_ref tops a = ExternFunctionRef ?e0"
        by (simp add: resolved_def)
      have "resolve_ref tops (ExternFunctionRef ?e0) = resolved tops (gname ?e0)"
        using m by (simp add: resolve_ref_def)
      also have "\<dots> = ExternFunctionRef ?e0"
        using g Nil by (simp add: resolved_def)
      finally show ?thesis using r2 by simp
    qed
  qed
qed (simp_all add: resolve_ref_def)

lemma linker_facts:
  assumes ok: "linker tops = Inr merged" and len: "2 \<le> length tops"
    and wf: "\<forall>tp \<in> set tops. wf_unit tp"
  shows "stubs_in (all_items tops) n \<noteq> [] \<Longrightarrow>
           map_of (items (top_scope merged)) n = Some (resolved tops n)"
    and "genuine_in (all_items tops) n = [] \<Longrightarrow> e \<in> set (stubs_in (all_items tops) n) \<Longrightarrow>
           ext_params e = ext_params (hd (stubs_in (all_items tops) n))
           \<and> ext_returns e = ext_returns (hd (stubs_in (all_items tops) n))"
    and "tp \<in> set tops \<Longrightarrow> m \<in> set (genuine_names (items (top_scope tp))) \<Longrightarrow>
         BasicBlockRef m bn \<in> set (blocks (funcs tp m)) \<Longrightarrow>
           insns (basic_blocks (funcs merged m) bn) =
             map (resolve_insn tops) (insns (basic_blocks (funcs tp m) bn))"
    and "length (genuine_in (all_items tops) n) \<le> 1"
proof -
  let ?st0 = "\<lparr>out = TopLevel_init, externs = [], all_blocks = []\<rparr>"
  let ?stubs = "stubs_in (all_items tops)"
  from ok len obtain st out1 mp where
    scan: "scan_tops tops ?st0 = Inr st"
    and res: "resolve_externs (externs st) (out st, []) = Inr (out1, mp)"
    and mg: "merged = (reparent (if mp \<noteq> [] then
                     fold (block_apply_mapping is_extern_function mp) (all_blocks st) out1
                   else out1))\<lparr>top_finished := True\<rparr>"
    by (rule linker_Inr)
  have wfa: "list_all wf_entry (all_items tops)"
    using wf by (rule wf_all_items)
  \<comment> \<open>the first pass\<close>
  have bk: "bucket (externs st) k = ?stubs k" for k
    using scan_tops_externs [OF scan, of k] by (simp add: bucket_def)
  have keys: "(k \<in> fst ` set (externs st)) = (?stubs k \<noteq> [])" for k
  proof -
    from scan_tops_externs [OF scan, of k]
    have "(map_of (externs st) k = None) = (?stubs k = [])" by simp
    then show ?thesis by (auto simp add: map_of_eq_None_iff)
  qed
  have dist: "distinct (map fst (externs st))"
    using scan_tops_externs [OF scan, of n] by simp
  have par: "parent (top_scope (out st)) = None"
    using scan_tops_externs [OF scan, of n] by (simp add: parent_init)
  have vb: "visible_binding (top_scope (out st)) k =
      (case genuine_in (all_items tops) k of [] \<Rightarrow> None | m # ms \<Rightarrow> Some (IRFunctionRef m))" for k
    using scan_tops_visible [OF scan, of k]
    by (simp add: visible_binding_init split: list.splits)
  show "length (genuine_in (all_items tops) n) \<le> 1"
    using scan_tops_visible [OF scan, of n] by simp
  have wfd: "\<forall>(k, es) \<in> set (externs st). \<forall>e \<in> set es. gname e = k"
  proof (intro ballI, clarify)
    fix k es e assume in_d: "(k, es) \<in> set (externs st)" and e: "e \<in> set es"
    from dist in_d have "map_of (externs st) k = Some es" by simp
    then have "bucket (externs st) k = es" by (simp add: bucket_def)
    with bk e have "e \<in> set (?stubs k)" by simp
    with wf_stubs_in [OF wfa] show "gname e = k" by simp
  qed
  \<comment> \<open>the second pass\<close>
  note r = resolve_externs_Inr [OF res par dist wfd]
  have rep: "replacement_for (top_scope (out st)) (externs st) k = resolved tops k" for k
    by (simp add: replacement_for_def vb bk resolved_def split: list.splits)
  have vb1: "visible_binding (top_scope out1) k = Some (resolved tops k)" if "?stubs k \<noteq> []" for k
    using r that keys [of k] rep [of k] by simp
  have bb1: "basic_blocks (funcs out1 k) = basic_blocks (funcs (out st) k)" for k
    using r by simp
  show "ext_params e = ext_params (hd (?stubs n)) \<and> ext_returns e = ext_returns (hd (?stubs n))"
    if "genuine_in (all_items tops) n = []" "e \<in> set (?stubs n)"
  proof -
    from that(1) have "visible_binding (top_scope (out st)) n = None" by (simp add: vb)
    with r that(2) bk [of n] show ?thesis by auto
  qed
  have mp: "map_arg is_extern_function mp a = resolve_ref tops a" for a
  proof (cases a)
    case (ExternFunctionRef x)
    from r have "map_of mp (ExternFunctionRef x) =
          (if x \<in> set (bucket (externs st) (gname x))
              \<and> replacement_for (top_scope (out st)) (externs st) (gname x) \<noteq> ExternFunctionRef x
           then Some (replacement_for (top_scope (out st)) (externs st) (gname x))
           else map_of [] (ExternFunctionRef x))"
      by blast
    with ExternFunctionRef show ?thesis
      by (auto simp add: map_arg_def resolve_ref_def rep bk)
  qed (simp_all add: map_arg_def resolve_ref_def)
  \<comment> \<open>the sweep over the collected blocks\<close>
  let ?out2 = "if mp \<noteq> [] then
                 fold (block_apply_mapping is_extern_function mp) (all_blocks st) out1
               else out1"
  have scope2: "top_scope merged = top_scope out1"
    using mg by simp
  show "map_of (items (top_scope merged)) n = Some (resolved tops n)" if "?stubs n \<noteq> []"
    using vb1 [OF that] scope2 by (simp add: visible_binding_key)
  have idem: "map_arg is_extern_function mp (map_arg is_extern_function mp a)
      = map_arg is_extern_function mp a" for a
    by (simp add: mp resolve_ref_idem [OF wfa])
  have am: "apply_mapping is_extern_function mp is = map (resolve_insn tops) is" for "is"
    by (simp add: apply_mapping_def resolve_insn_def mp cong: map_cong)
  show "insns (basic_blocks (funcs merged m) bn) =
             map (resolve_insn tops) (insns (basic_blocks (funcs tp m) bn))"
    if tp: "tp \<in> set tops" and m: "m \<in> set (genuine_names (items (top_scope tp)))"
      and b: "BasicBlockRef m bn \<in> set (blocks (funcs tp m))"
  proof -
    from scan_tops_blocks [OF scan] tp m b have coll: "BasicBlockRef m bn \<in> set (all_blocks st)"
      by auto
    from scan_tops_funcs [OF scan wf tp m] have f0: "funcs (out st) m = funcs tp m" .
    have "insns (basic_blocks (funcs ?out2 m) bn) =
        apply_mapping is_extern_function mp (insns (basic_blocks (funcs out1 m) bn))"
    proof (cases "mp = []")
      case True
      then show ?thesis by (simp add: apply_mapping_empty)
    next
      case False
      with fold_block_apply_mapping [of is_extern_function mp "all_blocks st" out1 m bn,
          OF idem] coll
      show ?thesis by simp
    qed
    with mg bb1 [of m] f0 show ?thesis
      by (simp add: am)
  qed
qed

lemma scan_items_preamble:
  "scan_items tp its st = Inr st' \<Longrightarrow> top_preamble (out st') = top_preamble (out st)"
proof (induction its arbitrary: st)
  case Nil
  then show ?case by simp
next
  case (Cons a its)
  obtain nm var where a: "a = (nm, var)" by (cases a)
  from Cons.prems(1) [unfolded a] show ?case
  proof (cases rule: scan_items_Cons_cases)
    case (extern e)
    from Cons.IH [OF extern(2)] show ?thesis by simp
  next
    case (genuine m s)
    from Cons.IH [OF genuine(3)] show ?thesis by simp
  next
    case other
    from Cons.IH [OF other(5)] show ?thesis by simp
  qed
qed

lemma scan_tops_preamble:
  "scan_tops tops st = Inr st' \<Longrightarrow>
   top_preamble (out st') = top_preamble (out st) @ concat (map top_preamble tops)"
proof (induction tops arbitrary: st)
  case Nil
  then show ?case by simp
next
  case (Cons tp tops)
  from Cons.prems(1) obtain st2 where s2: "scan_top tp st = Inr st2"
    and r: "scan_tops tops st2 = Inr st'"
    by (auto elim: bind_err_Inr)
  let ?st1 = "st\<lparr>out := (out st)\<lparr>top_preamble := top_preamble (out st) @ top_preamble tp,
                                  pragmas := pragmas (out st) @ pragmas tp\<rparr>\<rparr>"
  from s2 have "scan_items tp (items (top_scope tp)) ?st1 = Inr st2"
    by (simp add: scan_top_def split: if_splits)
  from scan_items_preamble [OF this] Cons.IH [OF r] show ?case by simp
qed

lemma extern_expect_signature_frame:
  assumes "extern_expect_signature e r t = Inr t'"
  shows "top_preamble t' = top_preamble t"
    and "super_blocks (funcs t' m) = super_blocks (funcs t m)"
  using assms
  by (cases r; auto simp add: Let_def split: if_splits)+

lemma check_externs_frame:
  "check_externs r es (t, mp) = Inr (t', mp') \<Longrightarrow>
     top_preamble t' = top_preamble t
   \<and> (\<forall>m. super_blocks (funcs t' m) = super_blocks (funcs t m))"
proof (induction es arbitrary: t mp)
  case Nil
  then show ?case by simp
next
  case (Cons e es)
  let ?mp1 = "if r \<noteq> ExternFunctionRef e then AList.update (ExternFunctionRef e) r mp else mp"
  from Cons.prems obtain t1 where t1: "extern_expect_signature e r t = Inr t1"
    and rest: "check_externs r es (t1, ?mp1) = Inr (t', mp')"
    by (auto elim: bind_err_Inr)
  from Cons.IH [OF rest] extern_expect_signature_frame [OF t1] show ?case by simp
qed

lemma resolve_externs_frame:
  "resolve_externs d (t, mp) = Inr (t', mp') \<Longrightarrow>
     top_preamble t' = top_preamble t
   \<and> (\<forall>m. super_blocks (funcs t' m) = super_blocks (funcs t m))"
proof (induction d arbitrary: t mp)
  case Nil
  then show ?case by simp
next
  case (Cons p rest)
  obtain nm es where p: "p = (nm, es)" by (cases p)
  from Cons.prems(1) p obtain new others where es: "es = new # others"
    by (cases es) auto
  let ?rp = "\<lambda>c. (case c of Some v \<Rightarrow> v | None \<Rightarrow> ExternFunctionRef new)"
  have eq: "resolve_externs (p # rest) (t, mp) =
      bind_err (lookup_func nm t) (\<lambda>concrete.
        bind_err (check_externs (?rp concrete) es (t, mp)) (\<lambda>(t1, mapping1).
          bind_err
            (if concrete = None then
               bind_err (store nm (ExternFunctionRef new) (top_scope t1))
                 (\<lambda>s. Inr (t1\<lparr>top_scope := s\<rparr>))
             else Inr t1)
            (\<lambda>t2. resolve_externs rest (t2, mapping1))))"
    using p es by (simp add: Let_def del: check_externs.simps)
  from Cons.prems(1) [unfolded eq] obtain c where
    k1: "bind_err (check_externs (?rp c) es (t, mp)) (\<lambda>(t1, mapping1).
          bind_err
            (if c = None then
               bind_err (store nm (ExternFunctionRef new) (top_scope t1))
                 (\<lambda>s. Inr (t1\<lparr>top_scope := s\<rparr>))
             else Inr t1)
            (\<lambda>t2. resolve_externs rest (t2, mapping1))) = Inr (t', mp')"
    by (rule bind_err_Inr)
  from k1 obtain x where cx: "check_externs (?rp c) es (t, mp) = Inr x"
    and kx: "(case x of (t1, mapping1) \<Rightarrow>
          bind_err
            (if c = None then
               bind_err (store nm (ExternFunctionRef new) (top_scope t1))
                 (\<lambda>s. Inr (t1\<lparr>top_scope := s\<rparr>))
             else Inr t1)
            (\<lambda>t2. resolve_externs rest (t2, mapping1))) = Inr (t', mp')"
    by (rule bind_err_Inr)
  obtain t1 mp1 where x: "x = (t1, mp1)" by (cases x)
  from cx x have ce: "check_externs (?rp c) es (t, mp) = Inr (t1, mp1)" by simp
  from kx x have k2: "bind_err
            (if c = None then
               bind_err (store nm (ExternFunctionRef new) (top_scope t1))
                 (\<lambda>s. Inr (t1\<lparr>top_scope := s\<rparr>))
             else Inr t1)
            (\<lambda>t2. resolve_externs rest (t2, mp1)) = Inr (t', mp')"
    by simp
  from k2 obtain t2 where t2: "(if c = None then
               bind_err (store nm (ExternFunctionRef new) (top_scope t1))
                 (\<lambda>s. Inr (t1\<lparr>top_scope := s\<rparr>))
             else Inr t1) = Inr t2"
    and rr: "resolve_externs rest (t2, mp1) = Inr (t', mp')"
    by (rule bind_err_Inr)
  from t2 have f2: "top_preamble t2 = top_preamble t1 \<and> funcs t2 = funcs t1"
    by (cases c) (auto elim!: bind_err_Inr)
  from check_externs_frame [OF ce] f2 Cons.IH [OF rr] show ?case by simp
qed

lemma block_apply_mapping_frame:
  "top_preamble (block_apply_mapping k mp b t) = top_preamble t"
  "is_basic b \<Longrightarrow> super_blocks (funcs (block_apply_mapping k mp b t) m) = super_blocks (funcs t m)"
  by (cases b; simp add: Let_def)+

lemma fold_block_apply_mapping_frame:
  "top_preamble (fold (block_apply_mapping k mp) bs t) = top_preamble t"
  "list_all is_basic bs \<Longrightarrow>
   super_blocks (funcs (fold (block_apply_mapping k mp) bs t) m) = super_blocks (funcs t m)"
  by (induction bs arbitrary: t) (simp_all add: block_apply_mapping_frame)

lemma reparent_unswept:
  "top_preamble (reparent t) = top_preamble t"
  "super_blocks (funcs (reparent t) m) = super_blocks (funcs t m)"
  by (simp_all add: reparent_def)

lemma linker_unswept:
  assumes ok: "linker tops = Inr merged" and len: "2 \<le> length tops"
  shows "top_preamble merged = concat (map top_preamble tops)"
    and "\<forall>tp \<in> set tops. wf_unit tp \<Longrightarrow> \<forall>tp \<in> set tops. plain_user_blocks tp \<Longrightarrow>
         tp \<in> set tops \<Longrightarrow> m \<in> set (genuine_names (items (top_scope tp))) \<Longrightarrow>
         super_blocks (funcs merged m) = super_blocks (funcs tp m)"
proof -
  let ?st0 = "\<lparr>out = TopLevel_init, externs = [], all_blocks = []\<rparr>"
  from ok len obtain st out1 mp where
    scan: "scan_tops tops ?st0 = Inr st"
    and res: "resolve_externs (externs st) (out st, []) = Inr (out1, mp)"
    and mg: "merged = (reparent (if mp \<noteq> [] then
                     fold (block_apply_mapping is_extern_function mp) (all_blocks st) out1
                   else out1))\<lparr>top_finished := True\<rparr>"
    by (rule linker_Inr)
  note r = resolve_externs_frame [OF res]
  from scan_tops_preamble [OF scan] have "top_preamble (out st) = concat (map top_preamble tops)"
    by (simp add: TopLevel_init_def)
  with r mg show "top_preamble merged = concat (map top_preamble tops)"
    by (simp add: reparent_unswept fold_block_apply_mapping_frame)
  assume wf: "\<forall>tp \<in> set tops. wf_unit tp" and plain: "\<forall>tp \<in> set tops. plain_user_blocks tp"
    and tp: "tp \<in> set tops" and m: "m \<in> set (genuine_names (items (top_scope tp)))"
  from scan_tops_blocks [OF scan] have
    "all_blocks st = concat (map (\<lambda>tp. concat (map (\<lambda>m. blocks (funcs tp m))
                                      (genuine_names (items (top_scope tp))))) tops)"
    by simp
  with plain have pb: "list_all is_basic (all_blocks st)"
    by (auto simp add: plain_user_blocks_def list_all_iff)
  from scan_tops_funcs [OF scan wf tp m] have f0: "funcs (out st) m = funcs tp m" .
  with r mg pb show "super_blocks (funcs merged m) = super_blocks (funcs tp m)"
    by (simp add: reparent_unswept fold_block_apply_mapping_frame)
qed

lemma unit_items:
  "items (top_scope unit_a) =
     [(''pos_util'', OtherEntity ''PosUtilEntity''), (''_global_entity'', OtherEntity ''GlobalEntity''),
      (''f'', IRFunctionRef ''f''), (''g'', ExternFunctionRef stub_g_a)]"
  "items (top_scope unit_b) =
     [(''pos_util'', OtherEntity ''PosUtilEntity''), (''_global_entity'', OtherEntity ''GlobalEntity''),
      (''h'', IRFunctionRef ''h''), (''f'', ExternFunctionRef stub_f),
      (''g'', ExternFunctionRef stub_g_b)]"
  by (simp_all add: unit_a_def unit_b_def TopLevel_init_def scope_setitem_def)

lemma caller_shape:
  "blocks (example_caller nm cs) = [BasicBlockRef nm ''entry'']"
  "finished (example_caller nm cs)"
  "params (example_caller nm cs) = []"
  "returns (example_caller nm cs) = []"
  "insns (basic_blocks (example_caller nm cs) ''entry'') =
     map (\<lambda>c. Insn (OtherInsn ''invoke'') [c] None) cs
     @ [Insn Branch [SuperBlockRef nm ''0ret''] None]"
  by (simp_all add: example_caller_def eval_defs)

lemma unit_funcs:
  "funcs unit_a ''f'' = example_caller ''f'' [ExternFunctionRef stub_g_a]"
  "funcs unit_b ''h'' = example_caller ''h'' [ExternFunctionRef stub_f, ExternFunctionRef stub_g_b]"
  "top_finished unit_a" "top_finished unit_b"
  by (simp_all add: unit_a_def unit_b_def)

lemma example_link: "\<exists>merged. linker [unit_a, unit_b] = Inr merged"
  by (simp add: linker_def scan_top_def unit_items unit_funcs caller_shape bind_err_def
      store_def contains_no_parent_def scope_setitem_def TopLevel_init_def generate_name_def
      uniq_def uniq_name_def uniq_loop.simps string_of_nat.simps digit_char_def Let_def
      bucket_append_def lookup_func_def lookup_def stub_f_def stub_g_a_def stub_g_b_def
      extern_finished_def top_end_def reparent_def scope_values_def)

lemma unit_b_setup_facts:
  "items (top_scope unit_b_setup) = items (top_scope unit_b)"
  "funcs unit_b_setup = funcs unit_b"
  "top_finished unit_b_setup"
  "top_preamble unit_a = []"
  "top_preamble unit_b_setup = [Insn (OtherInsn ''setupfn'') [ExternFunctionRef stub_f] None]"
  "pragmas unit_b_setup = pragmas unit_b"
  by (simp_all add: unit_b_setup_def unit_b_def unit_a_def TopLevel_init_def)

lemma example_setup_link: "\<exists>merged. linker [unit_a, unit_b_setup] = Inr merged"
  by (simp add: linker_def scan_top_def unit_b_setup_facts unit_items unit_funcs caller_shape
      bind_err_def
      store_def contains_no_parent_def scope_setitem_def TopLevel_init_def generate_name_def
      uniq_def uniq_name_def uniq_loop.simps string_of_nat.simps digit_char_def Let_def
      bucket_append_def lookup_func_def lookup_def stub_f_def stub_g_a_def stub_g_b_def
      extern_finished_def top_end_def reparent_def scope_values_def)

lemma resolve_ref_no_stub:
  assumes wfa: "list_all wf_entry (all_items tops)"
    and e: "e \<in> set (stubs_in (all_items tops) n)"
    and g: "genuine_in (all_items tops) n \<noteq> []"
  shows "resolve_ref tops a \<noteq> ExternFunctionRef e"
proof (cases a)
  case (ExternFunctionRef x)
  from wf_stubs_in [OF wfa e] have ne: "gname e = n" .
  show ?thesis
  proof (cases "x \<in> set (stubs_in (all_items tops) (gname x))")
    case False
    with e ne have "x \<noteq> e" by auto
    with False ExternFunctionRef show ?thesis by (simp add: resolve_ref_def)
  next
    case True
    show ?thesis
    proof (cases "genuine_in (all_items tops) (gname x)")
      case (Cons m ms)
      with True ExternFunctionRef show ?thesis by (simp add: resolve_ref_def resolved_def)
    next
      case Nil
      let ?e0 = "hd (stubs_in (all_items tops) (gname x))"
      from True have "?e0 \<in> set (stubs_in (all_items tops) (gname x))"
        by (cases "stubs_in (all_items tops) (gname x)") auto
      with wf_stubs_in [OF wfa] have "gname ?e0 = gname x" by simp
      with Nil g ne have "?e0 \<noteq> e" by auto
      with True Nil ExternFunctionRef show ?thesis by (simp add: resolve_ref_def resolved_def)
    qed
  qed
qed (simp_all add: resolve_ref_def)

lemma resolve_ref_stub:
  assumes wfa: "list_all wf_entry (all_items tops)"
    and e: "e \<in> set (stubs_in (all_items tops) n)"
  shows "resolve_ref tops (ExternFunctionRef e) = resolved tops n"
  using wf_stubs_in [OF wfa e] e by (simp add: resolve_ref_def)

text \<open>
  C4, amended. Units are as the front end builds them (\<open>wf_unit\<close>: a function is
  stored under its own name, a stub under its global name), at least two are linked, and
  the name \<open>n\<close> has extern stubs. If the link succeeds: when some unit defines
  \<open>n\<close> genuinely, that definition is the only one, the merged scope binds \<open>n\<close> to
  it, and no instruction of a collected block (a user block of a function of one of the
  units) refers to a stub of \<open>n\<close> any more; when no unit does, the merged scope binds
  \<open>n\<close> to the first stub, and every stub of \<open>n\<close> has that stub's parameters and
  returns. In both cases every collected block holds its former instructions with each
  argument resolved, where a stub of \<open>n\<close> resolves to what the merged scope binds
  \<open>n\<close> to. The sweep goes no further: the merged preamble is the concatenation of
  the units' preambles as they were, and when the user blocks are plain blocks the entry
  and exit SuperBlocks of every function are as they were; either may still hold a stub.
  If no unit defines \<open>n\<close> and some stub of \<open>n\<close> differs from the first in
  parameters or returns, the link fails.
\<close>

theorem linker_resolves_externs:
  assumes len: "2 \<le> length tops" and wf: "\<forall>tp \<in> set tops. wf_unit tp"
    and stubs: "stubs_in (all_items tops) n \<noteq> []"
  shows
    "(linker tops = Inr merged \<longrightarrow>
        (case genuine_in (all_items tops) n of
           m # ms \<Rightarrow>
             ms = [] \<and> map_of (items (top_scope merged)) n = Some (IRFunctionRef m)
             \<and> (\<forall>e \<in> set (stubs_in (all_items tops) n).
                   resolve_ref tops (ExternFunctionRef e) = IRFunctionRef m)
         | [] \<Rightarrow>
             map_of (items (top_scope merged)) n
               = Some (ExternFunctionRef (hd (stubs_in (all_items tops) n)))
             \<and> (\<forall>e \<in> set (stubs_in (all_items tops) n).
                   ext_params e = ext_params (hd (stubs_in (all_items tops) n))
                   \<and> ext_returns e = ext_returns (hd (stubs_in (all_items tops) n))
                   \<and> resolve_ref tops (ExternFunctionRef e)
                       = ExternFunctionRef (hd (stubs_in (all_items tops) n))))
        \<and> (\<forall>tp \<in> set tops. \<forall>m \<in> set (genuine_names (items (top_scope tp))).
              \<forall>bn. BasicBlockRef m bn \<in> set (blocks (funcs tp m)) \<longrightarrow>
                insns (basic_blocks (funcs merged m) bn)
                  = map (resolve_insn tops) (insns (basic_blocks (funcs tp m) bn))
                \<and> (genuine_in (all_items tops) n \<noteq> [] \<longrightarrow>
                     (\<forall>i \<in> set (insns (basic_blocks (funcs merged m) bn)).
                        \<forall>e \<in> set (stubs_in (all_items tops) n).
                          ExternFunctionRef e \<notin> set (insn_args i))))
        \<and> top_preamble merged = concat (map top_preamble tops)
        \<and> ((\<forall>tp \<in> set tops. plain_user_blocks tp) \<longrightarrow>
             (\<forall>tp \<in> set tops. \<forall>m \<in> set (genuine_names (items (top_scope tp))).
                super_blocks (funcs merged m) = super_blocks (funcs tp m))))
     \<and> (genuine_in (all_items tops) n = []
          \<and> (\<exists>e \<in> set (stubs_in (all_items tops) n).
                ext_params e \<noteq> ext_params (hd (stubs_in (all_items tops) n))
                \<or> ext_returns e \<noteq> ext_returns (hd (stubs_in (all_items tops) n)))
        \<longrightarrow> (\<exists>err. linker tops = Inl err))"
proof (intro conjI impI)
  have wfa: "list_all wf_entry (all_items tops)"
    using wf by (rule wf_all_items)
  {
    assume ok: "linker tops = Inr merged"
    note f = linker_facts [OF ok len wf]
    show "(case genuine_in (all_items tops) n of
           m # ms \<Rightarrow>
             ms = [] \<and> map_of (items (top_scope merged)) n = Some (IRFunctionRef m)
             \<and> (\<forall>e \<in> set (stubs_in (all_items tops) n).
                   resolve_ref tops (ExternFunctionRef e) = IRFunctionRef m)
         | [] \<Rightarrow>
             map_of (items (top_scope merged)) n
               = Some (ExternFunctionRef (hd (stubs_in (all_items tops) n)))
             \<and> (\<forall>e \<in> set (stubs_in (all_items tops) n).
                   ext_params e = ext_params (hd (stubs_in (all_items tops) n))
                   \<and> ext_returns e = ext_returns (hd (stubs_in (all_items tops) n))
                   \<and> resolve_ref tops (ExternFunctionRef e)
                       = ExternFunctionRef (hd (stubs_in (all_items tops) n))))"
    proof (cases "genuine_in (all_items tops) n")
      case Nil
      with f(1) [OF stubs] f(2) [of n] resolve_ref_stub [OF wfa] show ?thesis
        by (simp add: resolved_def)
    next
      case (Cons m ms)
      with f(4) [of n] have "ms = []" by simp
      with Cons f(1) [OF stubs] resolve_ref_stub [OF wfa] show ?thesis
        by (simp add: resolved_def)
    qed
    show "\<forall>tp \<in> set tops. \<forall>m \<in> set (genuine_names (items (top_scope tp))).
              \<forall>bn. BasicBlockRef m bn \<in> set (blocks (funcs tp m)) \<longrightarrow>
                insns (basic_blocks (funcs merged m) bn)
                  = map (resolve_insn tops) (insns (basic_blocks (funcs tp m) bn))
                \<and> (genuine_in (all_items tops) n \<noteq> [] \<longrightarrow>
                     (\<forall>i \<in> set (insns (basic_blocks (funcs merged m) bn)).
                        \<forall>e \<in> set (stubs_in (all_items tops) n).
                          ExternFunctionRef e \<notin> set (insn_args i)))"
    proof (intro ballI allI impI conjI)
      fix tp m bn
      assume tp: "tp \<in> set tops" and m: "m \<in> set (genuine_names (items (top_scope tp)))"
        and b: "BasicBlockRef m bn \<in> set (blocks (funcs tp m))"
      from f(3) [OF tp m b]
      show eq: "insns (basic_blocks (funcs merged m) bn)
                  = map (resolve_insn tops) (insns (basic_blocks (funcs tp m) bn))" .
      fix i e
      assume g: "genuine_in (all_items tops) n \<noteq> []"
        and i: "i \<in> set (insns (basic_blocks (funcs merged m) bn))"
        and e: "e \<in> set (stubs_in (all_items tops) n)"
      from i eq obtain j where "i = resolve_insn tops j" by auto
      then have "set (insn_args i) = resolve_ref tops ` set (insn_args j)"
        by (simp add: resolve_insn_def)
      moreover have "resolve_ref tops a \<noteq> ExternFunctionRef e" for a
        using wfa e g by (rule resolve_ref_no_stub)
      ultimately show "ExternFunctionRef e \<notin> set (insn_args i)"
        by (metis imageE)
    qed
    show "top_preamble merged = concat (map top_preamble tops)"
      using ok len by (rule linker_unswept(1))
    show "\<forall>tp \<in> set tops. \<forall>m \<in> set (genuine_names (items (top_scope tp))).
                super_blocks (funcs merged m) = super_blocks (funcs tp m)"
      if "\<forall>tp \<in> set tops. plain_user_blocks tp"
      using linker_unswept(2) [OF ok len wf that] by blast
  }
  assume mis: "genuine_in (all_items tops) n = []
          \<and> (\<exists>e \<in> set (stubs_in (all_items tops) n).
                ext_params e \<noteq> ext_params (hd (stubs_in (all_items tops) n))
                \<or> ext_returns e \<noteq> ext_returns (hd (stubs_in (all_items tops) n)))"
  show "\<exists>err. linker tops = Inl err"
  proof (cases "linker tops")
    case (Inl err)
    then show ?thesis by simp
  next
    case (Inr merged')
    from linker_facts(2) [OF Inr len wf, of n] mis show ?thesis by blast
  qed
qed

lemma unit_c_items:
  "items (top_scope unit_c) =
     [(''pos_util'', OtherEntity ''PosUtilEntity''), (''_global_entity'', OtherEntity ''GlobalEntity''),
      (''g'', ExternFunctionRef stub_g_c)]"
  by (simp add: unit_c_def TopLevel_init_def scope_setitem_def)

lemma units_wf: "wf_unit unit_a" "wf_unit unit_b" "wf_unit unit_c"
  by (simp_all add: wf_unit_def unit_items unit_c_items stub_f_def stub_g_a_def stub_g_b_def
      stub_g_c_def)

lemma units_ab:
  "stubs_in (all_items [unit_a, unit_b]) ''f'' = [stub_f]"
  "stubs_in (all_items [unit_a, unit_b]) ''g'' = [stub_g_a, stub_g_b]"
  "genuine_in (all_items [unit_a, unit_b]) ''f'' = [''f'']"
  "genuine_in (all_items [unit_a, unit_b]) ''g'' = []"
  "genuine_names (items (top_scope unit_b)) = [''h'']"
  by (simp_all add: all_items_def unit_items)

lemma units_ac:
  "stubs_in (all_items [unit_a, unit_c]) ''g'' = [stub_g_a, stub_g_c]"
  "genuine_in (all_items [unit_a, unit_c]) ''g'' = []"
  by (simp_all add: all_items_def unit_items unit_c_items)

theorem linker_resolves_externs_witness:
  "(\<exists>merged. linker [unit_a, unit_b] = Inr merged
      \<and> map_of (items (top_scope merged)) ''f'' = Some (IRFunctionRef ''f'')
      \<and> map_of (items (top_scope merged)) ''g'' = Some (ExternFunctionRef stub_g_a)
      \<and> insns (basic_blocks (funcs merged ''h'') ''entry'') =
          [Insn (OtherInsn ''invoke'') [IRFunctionRef ''f''] None,
           Insn (OtherInsn ''invoke'') [ExternFunctionRef stub_g_a] None,
           Insn Branch [SuperBlockRef ''h'' ''0ret''] None]
      \<and> top_preamble merged = []
      \<and> super_blocks (funcs merged ''h'') = super_blocks (funcs unit_b ''h''))
   \<and> (\<exists>err. linker [unit_a, unit_c] = Inl err)"
proof -
  let ?tops = "[unit_a, unit_b]"
  obtain merged where ok: "linker ?tops = Inr merged"
    using example_link by blast
  have len: "2 \<le> length ?tops" by simp
  have wf: "\<forall>tp \<in> set ?tops. wf_unit tp" by (simp add: units_wf)
  have sf: "stubs_in (all_items ?tops) ''f'' \<noteq> []" by (simp add: units_ab)
  have sg: "stubs_in (all_items ?tops) ''g'' \<noteq> []" by (simp add: units_ab)
  from linker_resolves_externs [OF len wf sf, of merged] ok
  have f: "map_of (items (top_scope merged)) ''f'' = Some (IRFunctionRef ''f'')"
    and rf: "resolve_ref ?tops (ExternFunctionRef stub_f) = IRFunctionRef ''f''"
    and blk: "\<forall>tp \<in> set ?tops. \<forall>m \<in> set (genuine_names (items (top_scope tp))).
              \<forall>bn. BasicBlockRef m bn \<in> set (blocks (funcs tp m)) \<longrightarrow>
                insns (basic_blocks (funcs merged m) bn)
                  = map (resolve_insn ?tops) (insns (basic_blocks (funcs tp m) bn))"
    by (simp_all add: units_ab)
  from linker_resolves_externs [OF len wf sg, of merged] ok
  have g: "map_of (items (top_scope merged)) ''g'' = Some (ExternFunctionRef stub_g_a)"
    and rg: "resolve_ref ?tops (ExternFunctionRef stub_g_b) = ExternFunctionRef stub_g_a"
    by (simp_all add: units_ab)
  have plain: "\<forall>tp \<in> set ?tops. plain_user_blocks tp"
    by (simp add: plain_user_blocks_def unit_items unit_funcs caller_shape)
  from linker_resolves_externs [OF len wf sf, of merged] ok plain
  have pre: "top_preamble merged = concat (map top_preamble ?tops)"
    and sup: "\<forall>tp \<in> set ?tops. \<forall>m \<in> set (genuine_names (items (top_scope tp))).
                super_blocks (funcs merged m) = super_blocks (funcs tp m)"
    by (simp_all add: units_ab)
  from pre have p0: "top_preamble merged = []"
    by (simp add: unit_a_def unit_b_def TopLevel_init_def)
  from sup have s0: "super_blocks (funcs merged ''h'') = super_blocks (funcs unit_b ''h'')"
    by (simp add: units_ab)
  have "BasicBlockRef ''h'' ''entry'' \<in> set (blocks (funcs unit_b ''h''))"
    by (simp add: unit_funcs caller_shape)
  with blk have "insns (basic_blocks (funcs merged ''h'') ''entry'')
      = map (resolve_insn ?tops) (insns (basic_blocks (funcs unit_b ''h'') ''entry''))"
    by (simp add: units_ab)
  then have h: "insns (basic_blocks (funcs merged ''h'') ''entry'') =
          [Insn (OtherInsn ''invoke'') [IRFunctionRef ''f''] None,
           Insn (OtherInsn ''invoke'') [ExternFunctionRef stub_g_a] None,
           Insn Branch [SuperBlockRef ''h'' ''0ret''] None]"
    by (simp add: unit_funcs caller_shape resolve_insn_def rf rg) (simp add: resolve_ref_def)
  let ?bad = "[unit_a, unit_c]"
  have len2: "2 \<le> length ?bad" by simp
  have wf2: "\<forall>tp \<in> set ?bad. wf_unit tp" by (simp add: units_wf)
  have sg2: "stubs_in (all_items ?bad) ''g'' \<noteq> []" by (simp add: units_ac)
  have "genuine_in (all_items ?bad) ''g'' = []
          \<and> (\<exists>e \<in> set (stubs_in (all_items ?bad) ''g'').
                ext_params e \<noteq> ext_params (hd (stubs_in (all_items ?bad) ''g''))
                \<or> ext_returns e \<noteq> ext_returns (hd (stubs_in (all_items ?bad) ''g'')))"
    by (simp add: units_ac stub_g_a_def stub_g_c_def)
  with linker_resolves_externs [OF len2 wf2 sg2] have "\<exists>err. linker ?bad = Inl err"
    by blast
  with ok f g h p0 s0 show ?thesis by blast
qed

text \<open>
  C4 as stated fails: units \<open>a\<close> and \<open>b\<close>, both finished, link; \<open>f\<close> has a
  genuine definition in \<open>a\<close> and a stub in \<open>b\<close>; and the preamble of the merged
  unit still holds the \<open>setupfn\<close> instruction that refers to the stub of \<open>f\<close>.
\<close>

theorem preamble_keeps_stub_counterexample:
  "top_finished unit_a \<and> top_finished unit_b_setup
   \<and> wf_unit unit_a \<and> wf_unit unit_b_setup
   \<and> genuine_in (all_items [unit_a, unit_b_setup]) ''f'' = [''f'']
   \<and> stubs_in (all_items [unit_a, unit_b_setup]) ''f'' = [stub_f]
   \<and> (\<exists>merged. linker [unit_a, unit_b_setup] = Inr merged
        \<and> top_preamble merged
            = [Insn (OtherInsn ''setupfn'') [ExternFunctionRef stub_f] None])"
proof -
  obtain merged where ok: "linker [unit_a, unit_b_setup] = Inr merged"
    using example_setup_link by blast
  have "2 \<le> length [unit_a, unit_b_setup]" by simp
  from linker_unswept(1) [OF ok this]
  have "top_preamble merged = [Insn (OtherInsn ''setupfn'') [ExternFunctionRef stub_f] None]"
    by (simp add: unit_b_setup_facts)
  with ok show ?thesis
    by (simp add: unit_b_setup_facts unit_funcs all_items_def unit_items wf_unit_def
        stub_f_def stub_g_a_def stub_g_b_def)
qed

end
